theory Spec2Isabelle
  imports Complex_Main "HOL-Library.AList" "HOL-Library.Sublist" "HOL-Library.Multiset"
begin

section \<open>Flat-record parser\<close>

text \<open>
  \<^verbatim>\<open>parseCsvLine(line)\<close> of \<^verbatim>\<open>gtfs-cta.js\<close> walks the line with an index \<open>i\<close>, an output
  array \<open>out\<close>, the current field \<open>cur\<close> and the flag \<open>inQuotes\<close>. The loop is the
  recursion below on the rest of the line; the look-ahead \<^verbatim>\<open>line[i + 1] === '"'\<close> is the
  pattern with two leading characters, and \<^verbatim>\<open>i += 1\<close> drops the second of them.
\<close>

definition dquote :: char where
  "dquote = CHR 0x22"

definition comma :: char where
  "comma = CHR 0x2C"

fun parseCsvLoop :: "string \<Rightarrow> string list \<Rightarrow> string \<Rightarrow> bool \<Rightarrow> string list" where
  "parseCsvLoop [] out cur inQuotes = out @ [cur]"
| "parseCsvLoop [ch] out cur inQuotes =
     (if ch = dquote then parseCsvLoop [] out cur (\<not> inQuotes)
      else if ch = comma \<and> \<not> inQuotes then parseCsvLoop [] (out @ [cur]) [] inQuotes
      else parseCsvLoop [] out (cur @ [ch]) inQuotes)"
| "parseCsvLoop (ch # nxt # rest) out cur inQuotes =
     (if ch = dquote then
        (if inQuotes \<and> nxt = dquote then parseCsvLoop rest out (cur @ [dquote]) inQuotes
         else parseCsvLoop (nxt # rest) out cur (\<not> inQuotes))
      else if ch = comma \<and> \<not> inQuotes then parseCsvLoop (nxt # rest) (out @ [cur]) [] inQuotes
      else parseCsvLoop (nxt # rest) out (cur @ [ch]) inQuotes)"

definition parseCsvLine :: "string \<Rightarrow> string list" where
  "parseCsvLine line = parseCsvLoop line [] [] False"

text \<open>The example row of the spec.\<close>

definition exampleRow :: string where
  \<open>exampleRow = ''"5,000","He said ""hi""",42''\<close>

section \<open>JavaScript containers and values\<close>

text \<open>
  A JavaScript \<^verbatim>\<open>Map\<close> iterates in insertion order, and \<^verbatim>\<open>set\<close> on a key that is present
  replaces the value where it stands: an association list with \<^const>\<open>AList.update\<close>.
  A \<^verbatim>\<open>Set\<close> is the list of its elements in insertion order; \<^verbatim>\<open>add\<close> of a member changes
  nothing.
\<close>

definition mapGet :: "('k \<times> 'v) list \<Rightarrow> 'k \<Rightarrow> 'v option" where
  "mapGet m k = map_of m k"

definition mapSet :: "('k \<times> 'v) list \<Rightarrow> 'k \<Rightarrow> 'v \<Rightarrow> ('k \<times> 'v) list" where
  "mapSet m k v = AList.update k v m"

definition mapValues :: "('k \<times> 'v) list \<Rightarrow> 'v list" where
  "mapValues m = map snd m"

definition setAdd :: "'a list \<Rightarrow> 'a \<Rightarrow> 'a list" where
  "setAdd s x = (if x \<in> set s then s else s @ [x])"

text \<open>
  A cell read \<^verbatim>\<open>row[idx.name]\<close> is \<^verbatim>\<open>undefined\<close> (here \<open>None\<close>) when the header has no
  such column or the row is too short. A string is truthy when it is defined and not empty.
  \<^verbatim>\<open>Object.fromEntries(cols.map((c, i) => [c, i]))\<close> keeps the last index of a repeated
  column name.
\<close>

definition colIndex :: "string list \<Rightarrow> string \<Rightarrow> nat option" where
  "colIndex cols = map_of (rev (zip cols [0..<length cols]))"

definition cell :: "string list \<Rightarrow> nat option \<Rightarrow> string option" where
  "cell row i = (case i of None \<Rightarrow> None | Some j \<Rightarrow> if j < length row then Some (row ! j) else None)"

definition truthy :: "string option \<Rightarrow> bool" where
  "truthy v = (case v of None \<Rightarrow> False | Some s \<Rightarrow> s \<noteq> [])"

definition orElse :: "string option \<Rightarrow> string \<Rightarrow> string" where
  "orElse v dflt = (case v of None \<Rightarrow> dflt | Some s \<Rightarrow> if s = [] then dflt else s)"

text \<open>
  Numbers are the reals; \<open>None\<close> stands for a value that is not a finite number (\<^verbatim>\<open>NaN\<close> or
  an infinity). The built-in conversion \<^verbatim>\<open>Number\<close> of a string is a parameter \<open>num\<close> of the
  builder; \<^verbatim>\<open>Number(undefined)\<close> is \<^verbatim>\<open>NaN\<close>.
\<close>

definition numberOf :: "(string \<Rightarrow> real option) \<Rightarrow> string option \<Rightarrow> real option" where
  "numberOf num v = (case v of None \<Rightarrow> None | Some s \<Rightarrow> num s)"

section \<open>Snapshot cache\<close>

datatype error =
    DownloadFailed nat
  | NetworkFailure
  | MissingEntry string
  | MalformedArchive
  | TypeError

text \<open>
  An archive is what \<^verbatim>\<open>unzipper\<close> makes of the bytes: \<open>None\<close> when it cannot be opened,
  otherwise for each entry name the non-blank lines of its text, as
  \<^verbatim>\<open>readZipEntryToLines\<close> returns them, or \<open>None\<close> when there is no such entry.
\<close>

type_synonym archive = "(string \<Rightarrow> string list option) option"

record meta =
  downloadedAt :: int
  updatedAt :: string
  url :: string
  bytes :: nat

record disk =
  metaFile :: "meta option"
  zipFile :: "archive option"
  metaWritable :: bool

record response =
  ok :: bool
  status :: nat
  body :: archive
  byteLength :: nat

record snapshot =
  zipPath :: string
  snap_updatedAt :: "string option"

definition GTFS_URL :: string where
  "GTFS_URL = ''https://www.transitchicago.com/downloads/sch_data/google_transit.zip''"

definition ZIP_PATH :: string where
  "ZIP_PATH = ''.cache/cta_gtfs.zip''"

definition ZIP_TTL_MS :: int where
  "ZIP_TTL_MS = 1000 * 60 * 60 * 24"

text \<open>
  \<^verbatim>\<open>readMeta()\<close> is \<^const>\<open>metaFile\<close> (\<open>None\<close> for a missing or unreadable file).
  \<^verbatim>\<open>writeMeta\<close> swallows a failure of the write.
\<close>

definition readMeta :: "disk \<Rightarrow> meta option" where
  "readMeta d = metaFile d"

definition writeMeta :: "meta \<Rightarrow> disk \<Rightarrow> disk" where
  "writeMeta m d = (if metaWritable d then d\<lparr>metaFile := Some m\<rparr> else d)"

text \<open>
  \<^verbatim>\<open>meta?.downloadedAt && Date.now() - meta.downloadedAt < ZIP_TTL_MS\<close>: a number is truthy
  when it is not zero.
\<close>

definition metaFresh :: "int \<Rightarrow> meta option \<Rightarrow> bool" where
  "metaFresh now mo = (case mo of None \<Rightarrow> False
     | Some m \<Rightarrow> downloadedAt m \<noteq> 0 \<and> now - downloadedAt m < ZIP_TTL_MS)"

definition snapshotFresh :: "int \<Rightarrow> disk \<Rightarrow> bool" where
  "snapshotFresh now d = (metaFresh now (readMeta d) \<and> zipFile d \<noteq> None)"

text \<open>
  \<^verbatim>\<open>downloadZipIfNeeded(fetchFn)\<close>. The clock \<open>clk\<close> gives the readings the function takes, in
  order: \<open>clk 0\<close> at the freshness test, \<open>clk 1\<close> for \<^verbatim>\<open>new Date()\<close>, \<open>clk 2\<close> for the
  \<^verbatim>\<open>downloadedAt\<close> written. \<open>toISO\<close> is \<^verbatim>\<open>toISOString\<close>. A fetch that rejects is \<open>None\<close>.
  The result carries the disk afterwards and the list of URLs fetched.
\<close>

definition downloadZipIfNeeded ::
  "(int \<Rightarrow> string) \<Rightarrow> (string \<Rightarrow> response option) \<Rightarrow> (nat \<Rightarrow> int) \<Rightarrow> disk
     \<Rightarrow> (error + snapshot) \<times> disk \<times> string list" where
  "downloadZipIfNeeded toISO fetchFn clk d =
     (let m = readMeta d in
      if metaFresh (clk 0) m \<and> zipFile d \<noteq> None then
        (Inr \<lparr>zipPath = ZIP_PATH,
              snap_updatedAt = (case m of None \<Rightarrow> None
                 | Some mm \<Rightarrow> if updatedAt mm = [] then None else Some (updatedAt mm))\<rparr>, d, [])
      else
        (case fetchFn GTFS_URL of
           None \<Rightarrow> (Inl NetworkFailure, d, [GTFS_URL])
         | Some res \<Rightarrow>
             if \<not> ok res then (Inl (DownloadFailed (status res)), d, [GTFS_URL])
             else
               (let d1 = d\<lparr>zipFile := Some (body res)\<rparr>;
                    u = toISO (clk 1);
                    d2 = writeMeta \<lparr>downloadedAt = clk 2, updatedAt = u, url = GTFS_URL,
                                    bytes = byteLength res\<rparr> d1
                in (Inr \<lparr>zipPath = ZIP_PATH, snap_updatedAt = Some u\<rparr>, d2, [GTFS_URL]))))"

section \<open>Index builder\<close>

record route =
  route_id :: string
  short_name :: string
  long_name :: string
  route_type :: "real option"

record stop =
  stop_id :: string
  stop_name :: string
  lat :: real
  lng :: real
  location_type :: "real option"

record gtfsIndex =
  idx_updatedAt :: "string option"
  stopById :: "(string \<times> stop) list"
  routeById :: "(string \<times> route) list"
  stopToRoutes :: "(string \<times> string list) list"

definition readZipEntryToLines :: "archive \<Rightarrow> string \<Rightarrow> error + string list" where
  "readZipEntryToLines z filename =
     (case z of None \<Rightarrow> Inl MalformedArchive
      | Some files \<Rightarrow>
          (case files filename of None \<Rightarrow> Inl (MissingEntry filename) | Some ls \<Rightarrow> Inr ls))"

text \<open>The body of the loop over \<^verbatim>\<open>routesRows\<close>.\<close>

definition routesStep ::
  "(string \<Rightarrow> real option) \<Rightarrow> (string \<Rightarrow> nat option) \<Rightarrow> (string \<times> route) list \<Rightarrow> string
     \<Rightarrow> (string \<times> route) list" where
  "routesStep num routeIdx rById line =
     (let row = parseCsvLine line in
      case cell row (routeIdx ''route_id'') of
        None \<Rightarrow> rById
      | Some rid \<Rightarrow>
          if rid = [] then rById
          else mapSet rById rid
                 \<lparr>route_id = rid,
                  short_name = orElse (cell row (routeIdx ''route_short_name'')) [],
                  long_name = orElse (cell row (routeIdx ''route_long_name'')) [],
                  route_type = numberOf num (cell row (routeIdx ''route_type''))\<rparr>)"

text \<open>The body of the loop over \<^verbatim>\<open>tripsRows\<close>.\<close>

definition tripsStep ::
  "(string \<Rightarrow> nat option) \<Rightarrow> (string \<times> string) list \<Rightarrow> string \<Rightarrow> (string \<times> string) list" where
  "tripsStep tripIdx tripToRoute line =
     (let row = parseCsvLine line;
          trip_id = cell row (tripIdx ''trip_id'');
          rid = cell row (tripIdx ''route_id'')
      in if truthy trip_id \<and> truthy rid then mapSet tripToRoute (orElse trip_id []) (orElse rid [])
         else tripToRoute)"

text \<open>
  The body of the loop over \<^verbatim>\<open>stopsRows\<close>. \<^verbatim>\<open>Number(row[stopIdx.location_type] || 0)\<close> is
  \<open>0\<close> for a missing or empty cell.
\<close>

definition stopsStep ::
  "(string \<Rightarrow> real option) \<Rightarrow> (string \<Rightarrow> nat option) \<Rightarrow> (string \<times> stop) list \<Rightarrow> string
     \<Rightarrow> (string \<times> stop) list" where
  "stopsStep num stopIdx sById line =
     (let row = parseCsvLine line;
          sid = cell row (stopIdx ''stop_id'');
          sname = cell row (stopIdx ''stop_name'');
          stop_lat = numberOf num (cell row (stopIdx ''stop_lat''));
          stop_lon = numberOf num (cell row (stopIdx ''stop_lon''));
          lt = cell row (stopIdx ''location_type'');
          ltype = (if truthy lt then numberOf num lt else Some 0)
      in case (stop_lat, stop_lon) of
           (Some la, Some lo) \<Rightarrow>
             if \<not> truthy sid \<or> \<not> truthy sname then sById
             else mapSet sById (orElse sid [])
                    \<lparr>stop_id = orElse sid [], stop_name = orElse sname [], lat = la, lng = lo,
                     location_type = ltype\<rparr>
         | _ \<Rightarrow> sById)"

text \<open>
  The body of the loop over \<^verbatim>\<open>stRows\<close>: the route of the row's trip is looked up in
  \<^verbatim>\<open>tripToRoute\<close> only, and \<^verbatim>\<open>if (set.size < 12) set.add(route_id)\<close> is \<open>capAdd\<close>.
\<close>

definition capAdd :: "string list \<Rightarrow> string \<Rightarrow> string list" where
  "capAdd s r = (if length s < 12 then setAdd s r else s)"

definition stopTimesStep ::
  "(string \<Rightarrow> nat option) \<Rightarrow> (string \<times> string) list \<Rightarrow> (string \<times> string list) list \<Rightarrow> string
     \<Rightarrow> (string \<times> string list) list" where
  "stopTimesStep stIdx tripToRoute s2r line =
     (let row = parseCsvLine line;
          trip_id = cell row (stIdx ''trip_id'');
          sid = cell row (stIdx ''stop_id'')
      in if \<not> truthy trip_id \<or> \<not> truthy sid then s2r
         else
           (case mapGet tripToRoute (orElse trip_id []) of
              None \<Rightarrow> s2r
            | Some rid \<Rightarrow>
                if rid = [] then s2r
                else
                  (let st = (case mapGet s2r (orElse sid []) of None \<Rightarrow> [] | Some x \<Rightarrow> x)
                   in mapSet s2r (orElse sid []) (capAdd st rid))))"

text \<open>
  The four tables, each from the lines after its header. A table without a header line
  makes \<^verbatim>\<open>parseCsvLine(undefined)\<close> raise a \<^verbatim>\<open>TypeError\<close>.
\<close>

definition buildRoutes :: "(string \<Rightarrow> real option) \<Rightarrow> string list \<Rightarrow> error + (string \<times> route) list" where
  "buildRoutes num ls = (case ls of [] \<Rightarrow> Inl TypeError
     | routesHeader # routesRows \<Rightarrow>
         Inr (foldl (routesStep num (colIndex (parseCsvLine routesHeader))) [] routesRows))"

definition buildTrips :: "string list \<Rightarrow> error + (string \<times> string) list" where
  "buildTrips ls = (case ls of [] \<Rightarrow> Inl TypeError
     | tripsHeader # tripsRows \<Rightarrow>
         Inr (foldl (tripsStep (colIndex (parseCsvLine tripsHeader))) [] tripsRows))"

definition buildStops :: "(string \<Rightarrow> real option) \<Rightarrow> string list \<Rightarrow> error + (string \<times> stop) list" where
  "buildStops num ls = (case ls of [] \<Rightarrow> Inl TypeError
     | stopsHeader # stopsRows \<Rightarrow>
         Inr (foldl (stopsStep num (colIndex (parseCsvLine stopsHeader))) [] stopsRows))"

definition buildStopToRoutes ::
  "(string \<times> string) list \<Rightarrow> string list \<Rightarrow> error + (string \<times> string list) list" where
  "buildStopToRoutes tripToRoute ls = (case ls of [] \<Rightarrow> Inl TypeError
     | stHeader # stRows \<Rightarrow>
         Inr (foldl (stopTimesStep (colIndex (parseCsvLine stHeader)) tripToRoute) [] stRows))"

text \<open>
  Lines 98 to 170 of \<^verbatim>\<open>buildGtfsIndex\<close>: the four entries are read first, in the order
  routes, trips, stops, stop times, then each table is parsed in the same order.
\<close>

definition buildIndex ::
  "(string \<Rightarrow> real option) \<Rightarrow> string option \<Rightarrow> archive \<Rightarrow> error + gtfsIndex" where
  "buildIndex num u z =
     (case readZipEntryToLines z ''routes.txt'' of Inl e \<Rightarrow> Inl e | Inr routesLines \<Rightarrow>
      case readZipEntryToLines z ''trips.txt'' of Inl e \<Rightarrow> Inl e | Inr tripsLines \<Rightarrow>
      case readZipEntryToLines z ''stops.txt'' of Inl e \<Rightarrow> Inl e | Inr stopsLines \<Rightarrow>
      case readZipEntryToLines z ''stop_times.txt'' of Inl e \<Rightarrow> Inl e | Inr stopTimesLines \<Rightarrow>
      case buildRoutes num routesLines of Inl e \<Rightarrow> Inl e | Inr rById \<Rightarrow>
      case buildTrips tripsLines of Inl e \<Rightarrow> Inl e | Inr tripToRoute \<Rightarrow>
      case buildStops num stopsLines of Inl e \<Rightarrow> Inl e | Inr sById \<Rightarrow>
      case buildStopToRoutes tripToRoute stopTimesLines of Inl e \<Rightarrow> Inl e | Inr s2r \<Rightarrow>
        Inr \<lparr>idx_updatedAt = u, stopById = sById, routeById = rById, stopToRoutes = s2r\<rparr>)"

text \<open>
  \<^verbatim>\<open>buildGtfsIndex(fetchFn)\<close>: the snapshot step, then the archive at \<^verbatim>\<open>zipPath\<close>. A file
  that is not there cannot be opened.
\<close>

definition buildGtfsIndex ::
  "(string \<Rightarrow> real option) \<Rightarrow> (int \<Rightarrow> string) \<Rightarrow> (string \<Rightarrow> response option) \<Rightarrow> (nat \<Rightarrow> int) \<Rightarrow> disk
     \<Rightarrow> (error + gtfsIndex) \<times> disk \<times> string list" where
  "buildGtfsIndex num toISO fetchFn clk d =
     (case downloadZipIfNeeded toISO fetchFn clk d of
        (Inl e, d', fetched) \<Rightarrow> (Inl e, d', fetched)
      | (Inr snap, d', fetched) \<Rightarrow>
          (buildIndex num (snap_updatedAt snap) (case zipFile d' of None \<Rightarrow> None | Some z \<Rightarrow> z),
           d', fetched))"

text \<open>
  For the statement about the cap: the route a stop-time row contributes to the stop \<open>s\<close>
  (if any), the routes of all rows for \<open>s\<close> in row order, and the distinct elements of a
  list in the order of their first occurrence.
\<close>

definition rowRoute ::
  "(string \<Rightarrow> nat option) \<Rightarrow> (string \<times> string) list \<Rightarrow> string \<Rightarrow> string \<Rightarrow> string option" where
  "rowRoute stIdx tripToRoute s line =
     (let row = parseCsvLine line;
          trip_id = cell row (stIdx ''trip_id'');
          sid = cell row (stIdx ''stop_id'')
      in if truthy trip_id \<and> sid = Some s \<and> s \<noteq> [] then
           (case mapGet tripToRoute (orElse trip_id []) of
              None \<Rightarrow> None
            | Some rid \<Rightarrow> if rid = [] then None else Some rid)
         else None)"

definition servingRoutes ::
  "(string \<Rightarrow> nat option) \<Rightarrow> (string \<times> string) list \<Rightarrow> string list \<Rightarrow> string \<Rightarrow> string list" where
  "servingRoutes stIdx tripToRoute rows s = List.map_filter (rowRoute stIdx tripToRoute s) rows"

definition firstDistinct :: "'a list \<Rightarrow> 'a list" where
  "firstDistinct xs = rev (remdups (rev xs))"

section \<open>Index cache and build coordinator\<close>

text \<open>
  The module state of \<^verbatim>\<open>getIndex\<close> is \<^verbatim>\<open>cache\<close>, \<^verbatim>\<open>cacheLoadedAt\<close> and \<^verbatim>\<open>inFlight\<close>; the
  cache directory is \<open>files\<close>. \<open>builds\<close> and \<open>fetches\<close> count the calls of
  \<^verbatim>\<open>buildGtfsIndex\<close> and of \<^verbatim>\<open>fetchFn\<close>. A promise is named by the number of the build that
  made it.

  JavaScript runs each piece of code between two suspension points to its end before
  anything else runs. \<^verbatim>\<open>getIndex\<close> has no \<^verbatim>\<open>await\<close>, and the call of \<^verbatim>\<open>buildGtfsIndex\<close> in it
  runs \<^verbatim>\<open>downloadZipIfNeeded\<close> up to its first \<^verbatim>\<open>await\<close>, which is after
  \<^verbatim>\<open>fetchFn(GTFS_URL)\<close> has been called. So one call of \<^verbatim>\<open>getIndex\<close> is one step
  \<open>getIndex now\<close> on the state, and the freshness test of the snapshot and the call of
  \<^verbatim>\<open>fetchFn\<close> belong to that step.
\<close>

record coordinator =
  cache :: "gtfsIndex option"
  cacheLoadedAt :: int
  inFlight :: "nat option"
  files :: disk
  builds :: nat
  fetches :: nat

datatype reply = Ready gtfsIndex | Awaiting nat

definition indexFresh :: "int \<Rightarrow> coordinator \<Rightarrow> bool" where
  "indexFresh now s = (cache s \<noteq> None \<and> now - cacheLoadedAt s < ZIP_TTL_MS)"

definition startBuild :: "int \<Rightarrow> coordinator \<Rightarrow> coordinator" where
  "startBuild now s =
     s\<lparr>inFlight := Some (builds s),
       builds := builds s + 1,
       fetches := fetches s + (if snapshotFresh now (files s) then 0 else 1)\<rparr>"

definition getIndex :: "int \<Rightarrow> coordinator \<Rightarrow> reply \<times> coordinator" where
  "getIndex now s =
     (case (case cache s of None \<Rightarrow> None
            | Some idx \<Rightarrow> if now - cacheLoadedAt s < ZIP_TTL_MS then Some idx else None) of
        Some idx \<Rightarrow> (Ready idx, s)
      | None \<Rightarrow>
          (case inFlight s of
             Some p \<Rightarrow> (Awaiting p, s)
           | None \<Rightarrow> (Awaiting (builds s), startBuild now s)))"

text \<open>The callbacks given to \<^verbatim>\<open>.then\<close> and \<^verbatim>\<open>.finally\<close>.\<close>

definition thenCallback :: "gtfsIndex \<Rightarrow> int \<Rightarrow> coordinator \<Rightarrow> coordinator" where
  "thenCallback idx now s = s\<lparr>cache := Some idx, cacheLoadedAt := now\<rparr>"

definition finallyCallback :: "coordinator \<Rightarrow> coordinator" where
  "finallyCallback s = s\<lparr>inFlight := None\<rparr>"

text \<open>
  The build in flight settles with what \<^verbatim>\<open>buildGtfsIndex\<close> gives: its outcome and the disk
  it leaves. A fulfilled build runs the \<^verbatim>\<open>.then\<close> callback and then the \<^verbatim>\<open>.finally\<close>
  callback; a rejected one skips \<^verbatim>\<open>.then\<close>.
\<close>

definition buildSettles ::
  "(error + gtfsIndex) \<times> disk \<times> string list \<Rightarrow> int \<Rightarrow> coordinator \<Rightarrow> coordinator" where
  "buildSettles r now s =
     (case r of
        (Inr idx, d, fetched) \<Rightarrow> finallyCallback (thenCallback idx now (s\<lparr>files := d\<rparr>))
      | (Inl e, d, fetched) \<Rightarrow> finallyCallback (s\<lparr>files := d\<rparr>))"

text \<open>Calls of \<^verbatim>\<open>getIndex\<close> one after the other, at the given times, with their replies.\<close>

fun getIndexCalls :: "int list \<Rightarrow> coordinator \<Rightarrow> reply list \<times> coordinator" where
  "getIndexCalls [] s = ([], s)"
| "getIndexCalls (t # ts) s =
     (case getIndex t s of (r, s') \<Rightarrow> (case getIndexCalls ts s' of (rs, s'') \<Rightarrow> (r # rs, s'')))"

section \<open>Numbers\<close>

text \<open>
  A JavaScript number is \<^verbatim>\<open>NaN\<close>, an infinity, or a finite double, taken here as the real
  it denotes. \<open>js_gt x y\<close> is \<^verbatim>\<open>x > y\<close>, which is false when either side is \<^verbatim>\<open>NaN\<close>;
  \<open>js_max\<close> and \<open>js_min\<close> are \<^verbatim>\<open>Math.max\<close> and \<^verbatim>\<open>Math.min\<close> of two arguments, \<^verbatim>\<open>NaN\<close> when
  either is; a number is truthy when it is neither \<^verbatim>\<open>NaN\<close> nor zero.
\<close>

datatype jsnum = NaN | NegInf | Fin real | PosInf

fun js_gt :: "jsnum \<Rightarrow> jsnum \<Rightarrow> bool" where
  "js_gt (Fin a) (Fin b) = (b < a)"
| "js_gt (Fin a) NegInf = True"
| "js_gt PosInf (Fin b) = True"
| "js_gt PosInf NegInf = True"
| "js_gt x y = False"

fun js_max :: "jsnum \<Rightarrow> jsnum \<Rightarrow> jsnum" where
  "js_max NaN y = NaN"
| "js_max x NaN = NaN"
| "js_max PosInf y = PosInf"
| "js_max x PosInf = PosInf"
| "js_max NegInf y = y"
| "js_max x NegInf = x"
| "js_max (Fin a) (Fin b) = Fin (max a b)"

fun js_min :: "jsnum \<Rightarrow> jsnum \<Rightarrow> jsnum" where
  "js_min NaN y = NaN"
| "js_min x NaN = NaN"
| "js_min NegInf y = NegInf"
| "js_min x NegInf = NegInf"
| "js_min PosInf y = y"
| "js_min x PosInf = x"
| "js_min (Fin a) (Fin b) = Fin (min a b)"

definition js_truthy :: "jsnum \<Rightarrow> bool" where
  "js_truthy x = (x \<noteq> NaN \<and> x \<noteq> Fin 0)"

definition isFin :: "jsnum \<Rightarrow> bool" where
  "isFin x = (case x of Fin a \<Rightarrow> True | _ \<Rightarrow> False)"

definition numOf :: "jsnum \<Rightarrow> real" where
  "numOf x = (case x of Fin a \<Rightarrow> a | _ \<Rightarrow> 0)"

text \<open>
  \<^verbatim>\<open>xs.slice(0, end)\<close>: the end is truncated to an integer, \<^verbatim>\<open>NaN\<close> is zero, and a negative
  end counts from the end of the array.
\<close>

definition sliceTo :: "jsnum \<Rightarrow> 'a list \<Rightarrow> 'a list" where
  "sliceTo end xs =
     (case end of
        NaN \<Rightarrow> []
      | NegInf \<Rightarrow> []
      | PosInf \<Rightarrow> xs
      | Fin x \<Rightarrow>
          if x < 0 then
            (if \<lfloor>- x\<rfloor> = 0 then [] else take (length xs - nat \<lfloor>- x\<rfloor>) xs)
          else take (nat \<lfloor>x\<rfloor>) xs)"

text \<open>
  The double arithmetic of the engine is a parameter: the operators \<^verbatim>\<open>+\<close>, \<^verbatim>\<open>-\<close>, \<^verbatim>\<open>*\<close>, \<^verbatim>\<open>/\<close>
  and \<^verbatim>\<open>** 2\<close> with their rounding, the functions of \<^verbatim>\<open>Math\<close> with the values the engine
  gives them (\<^verbatim>\<open>Math.sqrt\<close> of a negative number is \<^verbatim>\<open>NaN\<close>), and \<^verbatim>\<open>Math.PI\<close>.
\<close>

record arith =
  ar_add :: "jsnum \<Rightarrow> jsnum \<Rightarrow> jsnum"
  ar_sub :: "jsnum \<Rightarrow> jsnum \<Rightarrow> jsnum"
  ar_mul :: "jsnum \<Rightarrow> jsnum \<Rightarrow> jsnum"
  ar_div :: "jsnum \<Rightarrow> jsnum \<Rightarrow> jsnum"
  ar_sqr :: "jsnum \<Rightarrow> jsnum"
  ar_sin :: "jsnum \<Rightarrow> jsnum"
  ar_cos :: "jsnum \<Rightarrow> jsnum"
  ar_sqrt :: "jsnum \<Rightarrow> jsnum"
  ar_atan2 :: "jsnum \<Rightarrow> jsnum \<Rightarrow> jsnum"
  ar_pi :: jsnum

section \<open>Distance utility\<close>

text \<open>
  \<^verbatim>\<open>haversineMiles(lat1, lon1, lat2, lon2)\<close>, operation by operation, in the arithmetic \<open>ar\<close>.
  The result is whatever the arithmetic gives: in doubles the sum \<open>a\<close> can come out above 1
  for a stop at the antipode of the query point, and then the result is \<^verbatim>\<open>NaN\<close>.
\<close>

definition toRad :: "arith \<Rightarrow> jsnum \<Rightarrow> jsnum" where
  "toRad ar d = ar_div ar (ar_mul ar d (ar_pi ar)) (Fin 180)"

definition haversineMiles :: "arith \<Rightarrow> jsnum \<Rightarrow> jsnum \<Rightarrow> jsnum \<Rightarrow> jsnum \<Rightarrow> jsnum" where
  "haversineMiles ar lat1 lon1 lat2 lon2 =
     (let R = Fin 3958.7613;
          dLat = toRad ar (ar_sub ar lat2 lat1);
          dLon = toRad ar (ar_sub ar lon2 lon1);
          a = ar_add ar
                (ar_sqr ar (ar_sin ar (ar_div ar dLat (Fin 2))))
                (ar_mul ar
                   (ar_mul ar (ar_cos ar (toRad ar lat1)) (ar_cos ar (toRad ar lat2)))
                   (ar_sqr ar (ar_sin ar (ar_div ar dLon (Fin 2)))))
      in ar_mul ar (ar_mul ar (Fin 2) R)
           (ar_atan2 ar (ar_sqrt ar a) (ar_sqrt ar (ar_sub ar (Fin 1) a))))"

text \<open>
  The arithmetic without rounding, for the examples: each operation is the real one on
  finite numbers. \<^verbatim>\<open>Math.atan2(y, x)\<close> is the angle of the point \<open>(x, y)\<close>.
\<close>

definition atan2 :: "real \<Rightarrow> real \<Rightarrow> real" where
  "atan2 y x =
     (if 0 < x then arctan (y / x)
      else if x < 0 then (if 0 \<le> y then arctan (y / x) + pi else arctan (y / x) - pi)
      else if 0 < y then pi / 2
      else if y < 0 then - (pi / 2)
      else 0)"

definition lift1 :: "(real \<Rightarrow> real) \<Rightarrow> jsnum \<Rightarrow> jsnum" where
  "lift1 f x = (case x of Fin a \<Rightarrow> Fin (f a) | _ \<Rightarrow> NaN)"

definition lift2 :: "(real \<Rightarrow> real \<Rightarrow> real) \<Rightarrow> jsnum \<Rightarrow> jsnum \<Rightarrow> jsnum" where
  "lift2 f x y = (case x of Fin a \<Rightarrow> (case y of Fin b \<Rightarrow> Fin (f a b) | _ \<Rightarrow> NaN) | _ \<Rightarrow> NaN)"

definition idealDiv :: "jsnum \<Rightarrow> jsnum \<Rightarrow> jsnum" where
  "idealDiv x y =
     (case x of
        Fin a \<Rightarrow>
          (case y of
             Fin b \<Rightarrow>
               if b \<noteq> 0 then Fin (a / b)
               else if 0 < a then PosInf else if a < 0 then NegInf else NaN
           | _ \<Rightarrow> NaN)
      | _ \<Rightarrow> NaN)"

definition idealSqrt :: "jsnum \<Rightarrow> jsnum" where
  "idealSqrt x = (case x of Fin a \<Rightarrow> if a < 0 then NaN else Fin (sqrt a) | _ \<Rightarrow> NaN)"

definition idealArith :: arith where
  "idealArith =
     \<lparr>ar_add = lift2 (\<lambda>a b. a + b), ar_sub = lift2 (\<lambda>a b. a - b), ar_mul = lift2 (\<lambda>a b. a * b),
      ar_div = idealDiv, ar_sqr = lift1 (\<lambda>a. a\<^sup>2), ar_sin = lift1 sin, ar_cos = lift1 cos,
      ar_sqrt = idealSqrt, ar_atan2 = lift2 atan2, ar_pi = Fin pi\<rparr>"

section \<open>Nearby query engine\<close>

text \<open>
  \<^verbatim>\<open>Number(x.toFixed(2))\<close>: for a finite \<open>x\<close> below \<open>10\<^sup>2\<^sup>1\<close> in size, the multiple of one
  hundredth nearest to \<open>x\<close>, the larger one of two equally near (a negative \<open>x\<close> is rounded
  as \<open>- x\<close> and negated); the decimal is taken as the number read back from it. A larger
  \<open>x\<close>, an infinity and \<^verbatim>\<open>NaN\<close> come back as they are.
\<close>

definition toFixed2 :: "real \<Rightarrow> real" where
  "toFixed2 x =
     (if 10 ^ 21 \<le> \<bar>x\<bar> then x
      else if x < 0 then - (of_int \<lfloor>(- x) * 100 + 1 / 2\<rfloor> / 100)
      else of_int \<lfloor>x * 100 + 1 / 2\<rfloor> / 100)"

definition toFixedNum :: "jsnum \<Rightarrow> jsnum" where
  "toFixedNum x = (case x of Fin a \<Rightarrow> Fin (toFixed2 a) | _ \<Rightarrow> x)"

definition classifyMode :: "real option \<Rightarrow> string" where
  "classifyMode routeType =
     (if routeType = Some 3 then ''bus''
      else if routeType = Some 1 then ''train''
      else if routeType = Some 2 then ''rail''
      else ''other'')"

record routeOut =
  ro_id :: string
  shortName :: string
  longName :: string
  rtype :: string

record stopOut =
  out_id :: string
  out_name :: string
  out_lat :: real
  out_lng :: real
  distanceMi :: jsnum
  modes :: "string list"
  routes :: "routeOut list"

record nearby =
  res_updatedAt :: "string option"
  stops :: "stopOut list"

text \<open>
  \<^verbatim>\<open>routeIds.map((id) => idx.routeById.get(id)).filter(Boolean).map(...)\<close>: an id without a
  route record is dropped here.
\<close>

definition routeOutOf :: "route \<Rightarrow> routeOut" where
  "routeOutOf r =
     \<lparr>ro_id = route_id r,
      shortName = (if short_name r \<noteq> [] then short_name r
                   else if long_name r \<noteq> [] then long_name r else ''Route''),
      longName = (if long_name r \<noteq> [] then long_name r else short_name r),
      rtype = classifyMode (route_type r)\<rparr>"

definition routesOfStop :: "gtfsIndex \<Rightarrow> stop \<Rightarrow> routeOut list" where
  "routesOfStop idx st =
     (let routeIds = (case mapGet (stopToRoutes idx) (stop_id st) of None \<Rightarrow> [] | Some ids \<Rightarrow> ids)
      in map routeOutOf (List.map_filter (mapGet (routeById idx)) routeIds))"

text \<open>
  The body of the loop over the stops: \<open>None\<close> is \<^verbatim>\<open>continue\<close>, \<open>Some\<close> is what is pushed.
  The coordinates of a stop are finite numbers, those of the query are the numbers the caller
  passed. A stop whose distance is \<^verbatim>\<open>NaN\<close> passes the test \<^verbatim>\<open>dMi > radiusMi\<close> and is pushed.
\<close>

definition nearbyEntry ::
  "arith \<Rightarrow> gtfsIndex \<Rightarrow> jsnum \<Rightarrow> jsnum \<Rightarrow> jsnum \<Rightarrow> stop \<Rightarrow> stopOut option" where
  "nearbyEntry ar idx lat0 lng0 radiusMi st =
     (let dMi = haversineMiles ar lat0 lng0 (Fin (lat st)) (Fin (lng st)) in
      if js_gt dMi radiusMi then None
      else
        (let rs = routesOfStop idx st in
         Some \<lparr>out_id = stop_id st, out_name = stop_name st, out_lat = lat st, out_lng = lng st,
               distanceMi = toFixedNum dMi,
               modes = filter (\<lambda>m. m \<noteq> []) (foldl setAdd [] (map rtype rs)),
               routes = take 12 rs\<rparr>))"

definition candidates :: "arith \<Rightarrow> gtfsIndex \<Rightarrow> jsnum \<Rightarrow> jsnum \<Rightarrow> jsnum \<Rightarrow> stopOut list" where
  "candidates ar idx lat0 lng0 radiusMi =
     List.map_filter (nearbyEntry ar idx lat0 lng0 radiusMi) (mapValues (stopById idx))"

text \<open>
  \<^verbatim>\<open>Math.max(0.1, Number(radiusMeters) / 1609.344)\<close> and
  \<^verbatim>\<open>Math.max(1, Math.min(50, Number(limit) || 12))\<close>. An argument is the number that
  \<^verbatim>\<open>Number\<close> makes of it; an omitted argument is \<open>None\<close> and takes the default of the
  parameter list.
\<close>

definition radiusMiles :: "arith \<Rightarrow> jsnum option \<Rightarrow> jsnum" where
  "radiusMiles ar radiusMeters =
     js_max (Fin 0.1)
       (ar_div ar (case radiusMeters of None \<Rightarrow> Fin 1200 | Some r \<Rightarrow> r) (Fin 1609.344))"

definition limitValue :: "jsnum option \<Rightarrow> jsnum" where
  "limitValue limit =
     (let l = (case limit of None \<Rightarrow> Fin 12 | Some x \<Rightarrow> x)
      in js_max (Fin 1) (js_min (Fin 50) (if js_truthy l then l else Fin 12)))"

text \<open>
  \<^verbatim>\<open>out.sort((a, b) => a.distanceMi - b.distanceMi)\<close>. When every \<^verbatim>\<open>distanceMi\<close> is a finite
  number the comparator is consistent and the sort is the stable sort by that key. Otherwise
  the language leaves the order to the engine: \<open>engine\<close> is what the engine does with the
  array then, and the result is a permutation of the array.
\<close>

definition engineOrder :: "('a list \<Rightarrow> 'a list) \<Rightarrow> 'a list \<Rightarrow> 'a list" where
  "engineOrder engine xs = (if mset (engine xs) = mset xs then engine xs else xs)"

definition sortByDistanceMi :: "(stopOut list \<Rightarrow> stopOut list) \<Rightarrow> stopOut list \<Rightarrow> stopOut list" where
  "sortByDistanceMi engine out =
     (if list_all (\<lambda>e. isFin (distanceMi e)) out then sort_key (\<lambda>e. numOf (distanceMi e)) out
      else engineOrder engine out)"

text \<open>\<^verbatim>\<open>findNearby\<close> on the index that \<^verbatim>\<open>getIndex\<close> gave.\<close>

definition findNearby ::
  "(stopOut list \<Rightarrow> stopOut list) \<Rightarrow> arith \<Rightarrow> gtfsIndex \<Rightarrow> jsnum \<Rightarrow> jsnum \<Rightarrow> jsnum option
     \<Rightarrow> jsnum option \<Rightarrow> nearby" where
  "findNearby engine ar idx lat0 lng0 radiusMeters limit =
     (let radiusMi = radiusMiles ar radiusMeters;
          out = candidates ar idx lat0 lng0 radiusMi
      in \<lparr>res_updatedAt = idx_updatedAt idx,
          stops = sliceTo (limitValue limit) (sortByDistanceMi engine out)\<rparr>)"

section \<open>Example data\<close>

text \<open>
  An archive in which thirteen routes serve the stop \<open>S1\<close> (the trip \<open>t1\<close> calls twice), and
  the index built from it.
\<close>

definition capTripsRows :: "string list" where
  "capTripsRows =
     [''t1,R1'', ''t2,R2'', ''t3,R3'', ''t4,R4'', ''t5,R5'', ''t6,R6'', ''t7,R7'', ''t8,R8'',
      ''t9,R9'', ''t10,R10'', ''t11,R11'', ''t12,R12'', ''t13,R13'']"

definition capStopTimesRows :: "string list" where
  "capStopTimesRows =
     [''t1,S1'', ''t2,S1'', ''t1,S1'', ''t3,S1'', ''t4,S1'', ''t5,S1'', ''t6,S1'', ''t7,S1'',
      ''t8,S1'', ''t9,S1'', ''t10,S1'', ''t11,S1'', ''t12,S1'', ''t13,S1'', ''t13,S2'']"

definition capFiles :: "string \<Rightarrow> string list option" where
  "capFiles name =
     (if name = ''routes.txt'' then Some [''route_id,route_type'']
      else if name = ''trips.txt'' then Some (''trip_id,route_id'' # capTripsRows)
      else if name = ''stops.txt'' then Some [''stop_id,stop_name,stop_lat,stop_lon'']
      else if name = ''stop_times.txt'' then Some (''trip_id,stop_id'' # capStopTimesRows)
      else None)"

definition noNumber :: "string \<Rightarrow> real option" where
  "noNumber s = None"

definition capIndex :: gtfsIndex where
  "capIndex =
     \<lparr>idx_updatedAt = None, stopById = [], routeById = [],
      stopToRoutes =
        [(''S1'', [''R1'', ''R2'', ''R3'', ''R4'', ''R5'', ''R6'', ''R7'', ''R8'', ''R9'', ''R10'',
                   ''R11'', ''R12'']),
         (''S2'', [''R13''])]\<rparr>"

text \<open>An archive whose only trip names a route that \<^verbatim>\<open>routes.txt\<close> does not have.\<close>

definition ghostFiles :: "string \<Rightarrow> string list option" where
  "ghostFiles name =
     (if name = ''routes.txt'' then Some [''route_id,route_type'']
      else if name = ''trips.txt'' then Some [''trip_id,route_id'', ''t1,R9'']
      else if name = ''stops.txt'' then Some [''stop_id,stop_name,stop_lat,stop_lon'']
      else if name = ''stop_times.txt'' then Some [''trip_id,stop_id'', ''t1,S1'']
      else None)"

definition ghostIndex :: gtfsIndex where
  "ghostIndex =
     \<lparr>idx_updatedAt = None, stopById = [], routeById = [], stopToRoutes = [(''S1'', [''R9''])]\<rparr>"

text \<open>
  The scenario of the spec: one route \<open>R1\<close> of type 3, one stop \<open>S1\<close> at 41.88, -87.63,
  one stop time of \<open>trip1\<close>; and a second trip, of a route \<open>R9\<close> that has no route row.
  \<open>demoNum\<close> is \<^verbatim>\<open>Number\<close> on the three numerals of the archive.
\<close>

definition demoNum :: "string \<Rightarrow> real option" where
  "demoNum s =
     (if s = ''41.88'' then Some 41.88
      else if s = ''-87.63'' then Some (- 87.63)
      else if s = ''3'' then Some 3
      else None)"

definition demoFiles :: "string \<Rightarrow> string list option" where
  "demoFiles name =
     (if name = ''routes.txt'' then
        Some [''route_id,route_short_name,route_long_name,route_type'', ''R1,1,Bronzeville,3'']
      else if name = ''trips.txt'' then Some [''route_id,trip_id'', ''R1,trip1'', ''R9,trip2'']
      else if name = ''stops.txt'' then
        Some [''stop_id,stop_name,stop_lat,stop_lon'', ''S1,State/Lake,41.88,-87.63'']
      else if name = ''stop_times.txt'' then
        Some [''trip_id,arrival_time,stop_id'', ''trip1,08:00:00,S1'', ''trip2,08:05:00,S1'']
      else None)"

definition demoIndex :: gtfsIndex where
  "demoIndex =
     \<lparr>idx_updatedAt = Some ''2024-05-01T00:00:00.000Z'',
      stopById = [(''S1'', \<lparr>stop_id = ''S1'', stop_name = ''State/Lake'', lat = 41.88,
                             lng = - 87.63, location_type = Some 0\<rparr>)],
      routeById = [(''R1'', \<lparr>route_id = ''R1'', short_name = ''1'', long_name = ''Bronzeville'',
                              route_type = Some 3\<rparr>)],
      stopToRoutes = [(''S1'', [''R1'', ''R9''])]\<rparr>"

definition demoRoute :: routeOut where
  "demoRoute = \<lparr>ro_id = ''R1'', shortName = ''1'', longName = ''Bronzeville'', rtype = ''bus''\<rparr>"

definition demoStop :: stopOut where
  "demoStop =
     \<lparr>out_id = ''S1'', out_name = ''State/Lake'', out_lat = 41.88, out_lng = - 87.63,
      distanceMi = Fin 0, modes = [''bus''],
      routes = [demoRoute]\<rparr>"

text \<open>
  A stop 0.010789 degrees north of the query point, about 0.7454 miles away, and its entry
  in the result; a table with the stop to the north and a stop at the query point; the radii
  of 500 and 1200 metres in miles. The examples use the arithmetic without rounding, and an engine that leaves an array with an
  inconsistent comparator as it is; the results in doubles differ from the exact ones by
  far less than the margins of the examples.
\<close>

definition keepOrder :: "stopOut list \<Rightarrow> stopOut list" where
  "keepOrder xs = xs"

definition queryLat :: real where
  "queryLat = 41.88"

definition queryLng :: real where
  "queryLng = - 87.63"

definition northLat :: real where
  "northLat = 41.890789"

definition miles500 :: real where
  "miles500 = 500 / 1609.344"

definition miles1200 :: real where
  "miles1200 = 1200 / 1609.344"


definition northStop :: stopOut where
  "northStop =
     \<lparr>out_id = ''N1'', out_name = ''North'', out_lat = northLat, out_lng = queryLng,
      distanceMi = Fin 0.75, modes = [], routes = []\<rparr>"


definition pairStop :: stopOut where
  "pairStop =
     \<lparr>out_id = ''Z9'', out_name = ''Upper'', out_lat = queryLat, out_lng = queryLng,
      distanceMi = Fin 0, modes = [], routes = []\<rparr>"

definition northRow :: stop where
  "northRow =
     \<lparr>stop_id = ''N1'', stop_name = ''North'', lat = northLat, lng = queryLng,
      location_type = Some 0\<rparr>"

text \<open>
  A table of three stops on the meridian of the query point, in this order: \<open>N1\<close>, 0.010789
  degrees to the north; \<open>Z9\<close>, at the query point; \<open>M1\<close>, 0.010787 degrees to the north,
  which is nearer than \<open>N1\<close>. The two distances in miles; both round to 0.75.
\<close>

definition nearLat :: real where
  "nearLat = 41.890787"

definition northMiles :: real where
  "northMiles = 3958.7613 * (0.010789 * pi / 180)"

definition nearMiles :: real where
  "nearMiles = 3958.7613 * (0.010787 * pi / 180)"

definition nearRow :: stop where
  "nearRow =
     \<lparr>stop_id = ''M1'', stop_name = ''Near'', lat = nearLat, lng = queryLng,
      location_type = Some 0\<rparr>"

definition trioIndex :: gtfsIndex where
  "trioIndex =
     \<lparr>idx_updatedAt = None,
      stopById = [(''N1'', \<lparr>stop_id = ''N1'', stop_name = ''North'', lat = northLat,
                             lng = queryLng, location_type = Some 0\<rparr>),
                  (''Z9'', \<lparr>stop_id = ''Z9'', stop_name = ''Upper'', lat = queryLat,
                             lng = queryLng, location_type = Some 0\<rparr>),
                  (''M1'', \<lparr>stop_id = ''M1'', stop_name = ''Near'', lat = nearLat,
                             lng = queryLng, location_type = Some 0\<rparr>)],
      routeById = [], stopToRoutes = []\<rparr>"

definition nearStop :: stopOut where
  "nearStop =
     \<lparr>out_id = ''M1'', out_name = ''Near'', out_lat = nearLat, out_lng = queryLng,
      distanceMi = Fin 0.75, modes = [], routes = []\<rparr>"

text \<open>A table of sixty stops, \<open>C00\<close> to \<open>C59\<close>, all at the query point.\<close>

definition crowdStop :: "nat \<Rightarrow> stop" where
  "crowdStop i =
     \<lparr>stop_id = [CHR ''C'', char_of (48 + i div 10), char_of (48 + i mod 10)],
      stop_name = ''Crowd'', lat = queryLat, lng = queryLng, location_type = Some 0\<rparr>"

definition crowdIndex :: gtfsIndex where
  "crowdIndex =
     \<lparr>idx_updatedAt = None,
      stopById = map (\<lambda>i. (stop_id (crowdStop i), crowdStop i)) [0..<60],
      routeById = [], stopToRoutes = []\<rparr>"

text \<open>
  A run of the coordinator. The process starts with nothing cached and an empty cache
  directory; the first build downloads the scenario archive and succeeds. Twenty-five hours
  later the index is stale; the refresh downloads an archive without \<^verbatim>\<open>stops.txt\<close>, so the
  download is stored and the build fails. \<open>demoISO\<close> is \<^verbatim>\<open>toISOString\<close> at the instants of
  the two downloads.
\<close>

definition demoISO :: "int \<Rightarrow> string" where
  "demoISO t =
     (if t = 1714611600000 then ''2024-05-02T01:00:00.000Z'' else ''2024-05-01T00:00:00.000Z'')"

definition demoMeta :: "int \<Rightarrow> string \<Rightarrow> nat \<Rightarrow> meta" where
  "demoMeta t u n = \<lparr>downloadedAt = t, updatedAt = u, url = GTFS_URL, bytes = n\<rparr>"

definition brokenFiles :: "string \<Rightarrow> string list option" where
  "brokenFiles name = (if name = ''stops.txt'' then None else demoFiles name)"

definition goodFetch :: "string \<Rightarrow> response option" where
  "goodFetch u = Some \<lparr>ok = True, status = 200, body = Some demoFiles, byteLength = 1000\<rparr>"

definition brokenFetch :: "string \<Rightarrow> response option" where
  "brokenFetch u = Some \<lparr>ok = True, status = 200, body = Some brokenFiles, byteLength = 900\<rparr>"

definition bootTime :: int where
  "bootTime = 1714521599999"

definition nextDay :: int where
  "nextDay = bootTime + 90000000"

definition laterCall :: int where
  "laterCall = nextDay + 60000"

definition initState :: coordinator where
  "initState =
     \<lparr>cache = None, cacheLoadedAt = 0, inFlight = None,
      files = \<lparr>metaFile = None, zipFile = None, metaWritable = True\<rparr>,
      builds = 0, fetches = 0\<rparr>"

definition warmState :: coordinator where
  "warmState =
     (let s1 = snd (getIndex bootTime initState);
          r1 = buildGtfsIndex demoNum demoISO goodFetch (\<lambda>n. bootTime + int n) (files s1)
      in buildSettles r1 (bootTime + 5000) s1)"

definition refreshingState :: coordinator where
  "refreshingState = snd (getIndex nextDay warmState)"

definition brokenBuild :: "(error + gtfsIndex) \<times> disk \<times> string list" where
  "brokenBuild =
     buildGtfsIndex demoNum demoISO brokenFetch (\<lambda>n. nextDay + int n) (files refreshingState)"

definition staleState :: coordinator where
  "staleState = buildSettles brokenBuild (nextDay + 5000) refreshingState"

text \<open>Two clocks that stand still, just before and just after the expiry of a download.\<close>

definition clockBeforeExpiry :: "nat \<Rightarrow> int" where
  "clockBeforeExpiry n = bootTime + 2 + ZIP_TTL_MS - 1"

definition clockAfterExpiry :: "nat \<Rightarrow> int" where
  "clockAfterExpiry n = bootTime + 2 + ZIP_TTL_MS + 1"

section \<open>Parsing the example row\<close>

text \<open>
  C8. Parsing the line \<^verbatim>\<open>"5,000","He said ""hi""",42\<close> yields exactly the three fields
  \<^verbatim>\<open>5,000\<close>, \<^verbatim>\<open>He said "hi"\<close> and \<^verbatim>\<open>42\<close>: the commas inside the quotes do not separate,
  and the doubled quote gives one quote character.
\<close>

theorem parseCsvLine_example:
  \<open>parseCsvLine exampleRow = [''5,000'', ''He said "hi"'', ''42'']\<close>
  by (simp add: parseCsvLine_def exampleRow_def dquote_def comma_def)

section \<open>Containers\<close>

lemma mapGet_mapSet: "mapGet (mapSet m k v) k' = (if k' = k then Some v else mapGet m k')"
  by (simp add: mapGet_def mapSet_def update_conv')

lemma mapGet_Nil: "mapGet [] k = None"
  by (simp add: mapGet_def)

lemma set_mapSet_subset: "set (mapSet m k v) \<subseteq> insert (k, v) (set m)"
  unfolding mapSet_def by (induction m) auto

lemma mapSet_distinct: "distinct (map fst m) \<Longrightarrow> distinct (map fst (mapSet m k v))"
  by (simp add: mapSet_def distinct_update)

lemma set_map_filter_conv: "set (List.map_filter f xs) = {y. \<exists>x \<in> set xs. f x = Some y}"
  by (induction xs) (auto split: option.splits)

lemma set_foldl_setAdd: "set (foldl setAdd acc xs) = set acc \<union> set xs"
  by (induction xs arbitrary: acc) (auto simp: setAdd_def)

lemma foldl_setAdd_firstDistinct: "foldl setAdd [] xs = firstDistinct xs"
proof (induction xs rule: rev_induct)
  case Nil
  then show ?case by (simp add: firstDistinct_def)
next
  case (snoc x xs)
  have "set (foldl setAdd [] xs) = set xs" by (simp add: set_foldl_setAdd)
  with snoc show ?case by (simp add: firstDistinct_def setAdd_def)
qed

lemma foldl_setAdd_prefix: "\<exists>ys. foldl setAdd acc xs = acc @ ys"
  by (induction xs arbitrary: acc) (auto simp: setAdd_def, metis append.assoc)

lemma distinct_firstDistinct: "distinct (firstDistinct xs)"
  by (simp add: firstDistinct_def)

lemma set_firstDistinct: "set (firstDistinct xs) = set xs"
  by (simp add: firstDistinct_def)

section \<open>The route sets of the index\<close>

lemma foldl_capAdd_full: "12 \<le> length acc \<Longrightarrow> foldl capAdd acc xs = acc"
  by (induction xs) (auto simp: capAdd_def)

lemma foldl_capAdd_take:
  "length acc \<le> 12 \<Longrightarrow> foldl capAdd acc xs = take 12 (foldl setAdd acc xs)"
proof (induction xs arbitrary: acc)
  case Nil
  then show ?case by simp
next
  case (Cons x xs)
  show ?case
  proof (cases "length acc < 12")
    case True
    then have "length (setAdd acc x) \<le> 12" by (simp add: setAdd_def)
    with Cons.IH [of "setAdd acc x"] True show ?thesis by (simp add: capAdd_def)
  next
    case False
    with Cons.prems have len: "length acc = 12" by simp
    obtain ys where "foldl setAdd acc (x # xs) = acc @ ys"
      using foldl_setAdd_prefix by blast
    with len show ?thesis by (simp add: foldl_capAdd_full del: foldl_Cons)
  qed
qed

lemma foldl_capAdd_firstDistinct: "foldl capAdd [] xs = take 12 (firstDistinct xs)"
  by (simp add: foldl_capAdd_take foldl_setAdd_firstDistinct)

lemma stopTimesStep_get:
  "mapGet (stopTimesStep stIdx t2r m line) s =
     (case rowRoute stIdx t2r s line of
        None \<Rightarrow> mapGet m s
      | Some r \<Rightarrow> Some (capAdd (case mapGet m s of None \<Rightarrow> [] | Some x \<Rightarrow> x) r))"
  by (auto simp: stopTimesStep_def rowRoute_def Let_def mapGet_mapSet truthy_def orElse_def
      split: option.splits)

lemma foldl_stopTimesStep_get:
  "mapGet (foldl (stopTimesStep stIdx t2r) m rows) s =
     (if servingRoutes stIdx t2r rows s = [] then mapGet m s
      else Some (foldl capAdd (case mapGet m s of None \<Rightarrow> [] | Some x \<Rightarrow> x)
                   (servingRoutes stIdx t2r rows s)))"
proof (induction rows arbitrary: m)
  case Nil
  then show ?case by (simp add: servingRoutes_def map_filter_simps)
next
  case (Cons line rows)
  show ?case
  proof (cases "rowRoute stIdx t2r s line")
    case None
    then show ?thesis
      using Cons.IH [of "stopTimesStep stIdx t2r m line"]
      by (simp add: servingRoutes_def map_filter_simps stopTimesStep_get)
  next
    case (Some r)
    then show ?thesis
      using Cons.IH [of "stopTimesStep stIdx t2r m line"]
      by (simp add: servingRoutes_def map_filter_simps stopTimesStep_get)
  qed
qed

lemma buildIndex_stopToRoutes:
  assumes "buildIndex num u (Some fs) = Inr idx"
    and "fs ''trips.txt'' = Some (tripsHeader # tripsRows)"
    and "fs ''stop_times.txt'' = Some (stHeader # stRows)"
  shows "stopToRoutes idx =
           foldl (stopTimesStep (colIndex (parseCsvLine stHeader))
                    (foldl (tripsStep (colIndex (parseCsvLine tripsHeader))) [] tripsRows))
             [] stRows"
  using assms
  by (auto simp: buildIndex_def readZipEntryToLines_def buildTrips_def buildStopToRoutes_def
      split: sum.splits option.splits)

lemmas build_defs = buildIndex_def readZipEntryToLines_def buildRoutes_def buildTrips_def
  buildStops_def buildStopToRoutes_def routesStep_def tripsStep_def stopsStep_def
  stopTimesStep_def capAdd_def setAdd_def mapGet_def mapSet_def colIndex_def cell_def truthy_def
  orElse_def numberOf_def parseCsvLine_def dquote_def comma_def

lemma capIndex_built: "buildIndex noNumber None (Some capFiles) = Inr capIndex"
  by (simp add: capFiles_def capTripsRows_def capStopTimesRows_def capIndex_def noNumber_def
      build_defs Let_def)

lemma cap_servingRoutes:
  "servingRoutes (colIndex (parseCsvLine ''trip_id,stop_id''))
       (foldl (tripsStep (colIndex (parseCsvLine ''trip_id,route_id''))) [] capTripsRows)
       capStopTimesRows ''S1''
     = [''R1'', ''R2'', ''R1'', ''R3'', ''R4'', ''R5'', ''R6'', ''R7'', ''R8'', ''R9'', ''R10'',
        ''R11'', ''R12'', ''R13'']"
  by (simp add: servingRoutes_def rowRoute_def capTripsRows_def capStopTimesRows_def
      build_defs Let_def)

text \<open>
  C5. For every stop \<open>s\<close>, let \<open>rs\<close> be the routes of the stop-time rows for \<open>s\<close>, in row
  order, each resolved through the trips table. The route set of \<open>s\<close> in the built index is
  the first twelve distinct elements of \<open>rs\<close> (and there is no set when \<open>rs\<close> is empty): it
  has at most twelve ids, all distinct, and exactly twelve when more than twelve distinct
  routes serve the stop. The build succeeds all the same: a route beyond the cap is dropped
  without an error.
\<close>

theorem stopToRoutes_first_twelve:
  assumes "buildIndex num u (Some fs) = Inr idx"
    and "fs ''trips.txt'' = Some (tripsHeader # tripsRows)"
    and "fs ''stop_times.txt'' = Some (stHeader # stRows)"
    and "rs = servingRoutes (colIndex (parseCsvLine stHeader))
                (foldl (tripsStep (colIndex (parseCsvLine tripsHeader))) [] tripsRows) stRows s"
  shows "(rs = [] \<longrightarrow> mapGet (stopToRoutes idx) s = None) \<and>
         (rs \<noteq> [] \<longrightarrow> mapGet (stopToRoutes idx) s = Some (take 12 (firstDistinct rs))) \<and>
         (\<forall>st. mapGet (stopToRoutes idx) s = Some st \<longrightarrow>
            length st \<le> 12 \<and> distinct st \<and> (12 < card (set rs) \<longrightarrow> length st = 12))"
proof -
  have get: "mapGet (stopToRoutes idx) s = (if rs = [] then None else Some (foldl capAdd [] rs))"
    using buildIndex_stopToRoutes [OF assms(1-3)] assms(4)
    by (simp add: foldl_stopTimesStep_get mapGet_Nil)
  have len: "12 < card (set rs) \<Longrightarrow> length (take 12 (firstDistinct rs)) = 12"
  proof -
    assume "12 < card (set rs)"
    moreover have "card (set rs) = length (firstDistinct rs)"
      using distinct_card [OF distinct_firstDistinct, of rs] by (simp add: set_firstDistinct)
    ultimately show ?thesis by simp
  qed
  show ?thesis
    using get len by (auto simp: foldl_capAdd_firstDistinct distinct_firstDistinct)
qed

text \<open>
  C5, at the archive with thirteen routes at \<open>S1\<close>: the set is \<open>R1\<close> to \<open>R12\<close>, and \<open>R13\<close>
  is dropped.
\<close>

theorem stopToRoutes_first_twelve_witness:
  "buildIndex noNumber None (Some capFiles) = Inr capIndex \<and>
   capFiles ''trips.txt'' = Some (''trip_id,route_id'' # capTripsRows) \<and>
   capFiles ''stop_times.txt'' = Some (''trip_id,stop_id'' # capStopTimesRows) \<and>
   mapGet (stopToRoutes capIndex) ''S1''
     = Some [''R1'', ''R2'', ''R3'', ''R4'', ''R5'', ''R6'', ''R7'', ''R8'', ''R9'', ''R10'',
             ''R11'', ''R12'']"
proof -
  have h2: "capFiles ''trips.txt'' = Some (''trip_id,route_id'' # capTripsRows)"
    and h3: "capFiles ''stop_times.txt'' = Some (''trip_id,stop_id'' # capStopTimesRows)"
    by (simp_all add: capFiles_def)
  note th = stopToRoutes_first_twelve [OF capIndex_built h2 h3 cap_servingRoutes [symmetric]]
  have ne: "[''R1'', ''R2'', ''R1'', ''R3'', ''R4'', ''R5'', ''R6'', ''R7'',
         ''R8'', ''R9'', ''R10'', ''R11'', ''R12'', ''R13''] \<noteq> ([] :: string list)"
    by simp
  from th [THEN conjunct2, THEN conjunct1, rule_format, OF ne]
  have "mapGet (stopToRoutes capIndex) ''S1''
     = Some (take 12 (firstDistinct [''R1'', ''R2'', ''R1'', ''R3'', ''R4'', ''R5'', ''R6'', ''R7'',
         ''R8'', ''R9'', ''R10'', ''R11'', ''R12'', ''R13'']))" .
  then have "mapGet (stopToRoutes capIndex) ''S1''
     = Some [''R1'', ''R2'', ''R3'', ''R4'', ''R5'', ''R6'', ''R7'', ''R8'', ''R9'', ''R10'',
             ''R11'', ''R12'']"
    by (simp add: firstDistinct_def)
  with capIndex_built h2 h3 show ?thesis by blast
qed

section \<open>Distance and rounding\<close>

text \<open>
  Bounds on \<^const>\<open>pi\<close> from Machin's formula, with the first terms of the series of
  \<^const>\<open>arctan\<close> as bounds.
\<close>

lemma arctan_lower3:
  fixes x :: real
  assumes "0 \<le> x"
  shows "x - x ^ 3 / 3 \<le> arctan x"
proof -
  define f where "f = (\<lambda>t::real. arctan t - (t - t ^ 3 / 3))"
  have "f 0 \<le> f x"
  proof (rule DERIV_nonneg_imp_nondecreasing [OF assms])
    fix t :: real
    have "DERIV f t :> inverse (1 + t\<^sup>2) - (1 - t\<^sup>2)"
      unfolding f_def by (auto intro!: derivative_eq_intros)
    moreover have "0 \<le> inverse (1 + t\<^sup>2) - (1 - t\<^sup>2)"
    proof -
      have "0 < 1 + t\<^sup>2" by (simp add: add_pos_nonneg)
      moreover have "(1 - t\<^sup>2) * (1 + t\<^sup>2) = 1 - (t\<^sup>2)\<^sup>2"
        by (simp add: algebra_simps power2_eq_square)
      then have "(1 - t\<^sup>2) * (1 + t\<^sup>2) \<le> 1" by simp
      ultimately have "1 - t\<^sup>2 \<le> 1 / (1 + t\<^sup>2)"
        by (simp add: pos_le_divide_eq)
      then show ?thesis by (simp add: inverse_eq_divide)
    qed
    ultimately show "\<exists>y. DERIV f t :> y \<and> 0 \<le> y" by blast
  qed
  then show ?thesis by (simp add: f_def)
qed

lemma arctan_upper5:
  fixes x :: real
  assumes "0 \<le> x"
  shows "arctan x \<le> x - x ^ 3 / 3 + x ^ 5 / 5"
proof -
  define f where "f = (\<lambda>t::real. (t - t ^ 3 / 3 + t ^ 5 / 5) - arctan t)"
  have "f 0 \<le> f x"
  proof (rule DERIV_nonneg_imp_nondecreasing [OF assms])
    fix t :: real
    have "DERIV f t :> (1 - t\<^sup>2 + t ^ 4) - inverse (1 + t\<^sup>2)"
      unfolding f_def by (auto intro!: derivative_eq_intros)
    moreover have "0 \<le> (1 - t\<^sup>2 + t ^ 4) - inverse (1 + t\<^sup>2)"
    proof -
      have "0 < 1 + t\<^sup>2" by (simp add: add_pos_nonneg)
      moreover have "(1 - t\<^sup>2 + t ^ 4) * (1 + t\<^sup>2) = 1 + t ^ 6"
        by (simp add: algebra_simps power2_eq_square power_numeral_reduce)
      then have "1 \<le> (1 - t\<^sup>2 + t ^ 4) * (1 + t\<^sup>2)" by simp
      ultimately have "1 / (1 + t\<^sup>2) \<le> 1 - t\<^sup>2 + t ^ 4"
        by (simp add: pos_divide_le_eq)
      then show ?thesis by (simp add: inverse_eq_divide)
    qed
    ultimately show "\<exists>y. DERIV f t :> y \<and> 0 \<le> y" by blast
  qed
  then show ?thesis by (simp add: f_def)
qed

lemma pi_lower: "3.1405 < pi"
proof -
  have "74 / 375 \<le> arctan (1/5 :: real)"
    using arctan_lower3 [of "1/5"] by (simp add: power_divide)
  moreover have "arctan (1/239 :: real) \<le> 1/239"
    using arctan_upper5 [of "1/239"] by (simp add: power_divide)
  ultimately show ?thesis
    using machin by simp
qed

lemma pi_upper: "pi < 3.1417"
proof -
  have "arctan (1/5 :: real) \<le> 9253 / 46875"
    using arctan_upper5 [of "1/5"] by (simp add: power_divide)
  moreover have "171362 / 40955757 \<le> arctan (1/239 :: real)"
    using arctan_lower3 [of "1/239"] by (simp add: power_divide)
  ultimately show ?thesis
    using machin by simp
qed

text \<open>
  Two points on one meridian, in the arithmetic without rounding: the distance is the arc of
  the difference in latitude.
\<close>

lemma atan2_sin_cos:
  assumes "0 \<le> t" and "t < pi / 2"
  shows "atan2 (sqrt ((sin t)\<^sup>2)) (sqrt (1 - (sin t)\<^sup>2)) = t"
proof -
  have c: "0 < cos t" using assms by (intro cos_gt_zero_pi) auto
  have s: "0 \<le> sin t" using assms by (intro sin_ge_zero) auto
  have e1: "sqrt ((sin t)\<^sup>2) = sin t" using s by simp
  have "1 - (sin t)\<^sup>2 = (cos t)\<^sup>2" by (simp add: cos_squared_eq)
  then have e2: "sqrt (1 - (sin t)\<^sup>2) = cos t" using c by simp
  have e3: "arctan (sin t / cos t) = t"
    using arctan_tan [of t] assms by (simp add: tan_def)
  show ?thesis unfolding e1 e2 using c e3 by (simp add: atan2_def)
qed

lemmas ideal_defs =
  idealArith_def lift1_def lift2_def idealDiv_def idealSqrt_def toRad_def

lemma haversineMiles_meridian:
  assumes "0 \<le> dl" and "dl < 180"
  shows "haversineMiles idealArith (Fin la) (Fin lo) (Fin (la + dl)) (Fin lo) = Fin (3958.7613 * (dl * pi / 180))"
proof -
  define t where "t = dl * pi / 360"
  have t: "0 \<le> t" "t < pi / 2" using assms by (simp_all add: t_def)
  have n1: "\<not> (sin t)\<^sup>2 < 0" by simp
  have "(sin t)\<^sup>2 \<le> 1" using sin_squared_eq [of t] zero_le_power2 [of "cos t"] by linarith
  then have n2: "\<not> 1 - (sin t)\<^sup>2 < 0" by simp
  have "haversineMiles idealArith (Fin la) (Fin lo) (Fin (la + dl)) (Fin lo)
          = Fin (2 * 3958.7613 * atan2 (sqrt ((sin t)\<^sup>2)) (sqrt (1 - (sin t)\<^sup>2)))"
    using n1 n2 by (simp add: haversineMiles_def ideal_defs Let_def t_def)
  also have "\<dots> = Fin (2 * 3958.7613 * t)" unfolding atan2_sin_cos [OF t] ..
  finally show ?thesis by (simp add: t_def)
qed

lemma haversineMiles_same: "haversineMiles idealArith (Fin la) (Fin lo) (Fin la) (Fin lo) = Fin 0"
  by (simp add: haversineMiles_def ideal_defs atan2_def Let_def)

lemma toFixed2_between:
  assumes "of_int n / 100 - 1 / 200 \<le> x" and "x < of_int n / 100 + 1 / 200" and "0 \<le> x"
    and "x < 10 ^ 21"
  shows "toFixed2 x = of_int n / 100"
proof -
  have "\<lfloor>x * 100 + 1 / 2\<rfloor> = n"
    using assms by (intro floor_unique) (simp_all add: field_simps)
  moreover from assms(3,4) have "\<not> 10 ^ 21 \<le> \<bar>x\<bar>" by simp
  ultimately show ?thesis using assms(3) by (simp add: toFixed2_def)
qed

lemma toFixed2_error: "\<bar>toFixed2 x - x\<bar> \<le> 1 / 200"
proof (cases "10 ^ 21 \<le> \<bar>x\<bar>")
  case True
  then show ?thesis by (simp add: toFixed2_def)
next
  case big: False
  show ?thesis
  proof (cases "x < 0")
    case False
    define n where "n = \<lfloor>x * 100 + 1 / 2\<rfloor>"
    have "of_int n \<le> x * 100 + 1 / 2" "x * 100 + 1 / 2 < of_int n + 1"
      unfolding n_def by linarith+
    then have "\<bar>of_int n / 100 - x\<bar> \<le> 1 / 200" by linarith
    with False big show ?thesis by (simp add: toFixed2_def n_def)
  next
    case True
    define n where "n = \<lfloor>(- x) * 100 + 1 / 2\<rfloor>"
    have "of_int n \<le> (- x) * 100 + 1 / 2" "(- x) * 100 + 1 / 2 < of_int n + 1"
      unfolding n_def by linarith+
    then have "\<bar>- (of_int n / 100) - x\<bar> \<le> 1 / 200" by linarith
    with True big show ?thesis by (simp add: toFixed2_def n_def)
  qed
qed

lemma toFixed2_zero: "toFixed2 0 = 0"
  by (simp add: toFixed2_def)

lemma north_distance:
  "haversineMiles idealArith (Fin queryLat) (Fin queryLng) (Fin northLat) (Fin queryLng) = Fin northMiles"
proof -
  have "northLat = queryLat + 0.010789" by (simp add: northLat_def queryLat_def)
  then show ?thesis
    using haversineMiles_meridian [of "0.010789" queryLat queryLng]
    by (simp add: northMiles_def)
qed

lemma near_distance:
  "haversineMiles idealArith (Fin queryLat) (Fin queryLng) (Fin nearLat) (Fin queryLng) = Fin nearMiles"
proof -
  have "nearLat = queryLat + 0.010787" by (simp add: nearLat_def queryLat_def)
  then show ?thesis
    using haversineMiles_meridian [of "0.010787" queryLat queryLng]
    by (simp add: nearMiles_def)
qed

lemma north_distance_bounds: "0.745 \<le> northMiles" "northMiles < 0.7456"
  unfolding northMiles_def using pi_lower pi_upper by simp_all

lemma near_distance_bounds: "0.745 \<le> nearMiles" "nearMiles < 0.7456" "nearMiles < northMiles"
  unfolding nearMiles_def northMiles_def using pi_lower pi_upper by simp_all

lemma north_distance_fixed: "toFixed2 northMiles = 0.75"
  using toFixed2_between [of 75 northMiles] north_distance_bounds by simp

lemma near_distance_fixed: "toFixed2 nearMiles = 0.75"
  using toFixed2_between [of 75 nearMiles] near_distance_bounds by simp
section \<open>The nearby query\<close>

text \<open>The stop table of a built index has one stop for each id.\<close>

lemma mapSet_stop_ids:
  assumes "\<forall>(k, s) \<in> set m. stop_id s = k" and "stop_id v = k"
  shows "\<forall>(k', s) \<in> set (mapSet m k v). stop_id s = k'"
  using assms set_mapSet_subset [of m k v] by auto

lemma stopsStep_cases:
  "stopsStep num sidx m line = m \<or>
   (\<exists>k sn la lo lt. stopsStep num sidx m line
      = mapSet m k \<lparr>stop_id = k, stop_name = sn, lat = la, lng = lo, location_type = lt\<rparr>)"
  by (simp add: stopsStep_def Let_def split: option.splits) blast

lemma stopsStep_keys:
  assumes "distinct (map fst m)" and "\<forall>(k, s) \<in> set m. stop_id s = k"
  shows "distinct (map fst (stopsStep num sidx m line)) \<and>
         (\<forall>(k, s) \<in> set (stopsStep num sidx m line). stop_id s = k)"
proof -
  from stopsStep_cases [of num sidx m line] show ?thesis
  proof (elim disjE exE)
    assume "stopsStep num sidx m line = m"
    with assms show ?thesis by simp
  next
    fix k sn la lo lt
    assume e: "stopsStep num sidx m line
      = mapSet m k \<lparr>stop_id = k, stop_name = sn, lat = la, lng = lo, location_type = lt\<rparr>"
    have "stop_id \<lparr>stop_id = k, stop_name = sn, lat = la, lng = lo, location_type = lt\<rparr> = k"
      by simp
    from mapSet_stop_ids [OF assms(2) this] mapSet_distinct [OF assms(1)]
    show ?thesis unfolding e by blast
  qed
qed

lemma foldl_stopsStep_keys:
  assumes "distinct (map fst m)" and "\<forall>(k, s) \<in> set m. stop_id s = k"
  shows "distinct (map fst (foldl (stopsStep num sidx) m rows)) \<and>
         (\<forall>(k, s) \<in> set (foldl (stopsStep num sidx) m rows). stop_id s = k)"
  using assms
proof (induction rows arbitrary: m)
  case Nil
  then show ?case by simp
next
  case (Cons line rows)
  from stopsStep_keys [OF Cons.prems, of num sidx line]
  show ?case using Cons.IH [of "stopsStep num sidx m line"] by simp
qed

lemma buildIndex_stop_ids_distinct:
  assumes "buildIndex num u z = Inr idx"
  shows "distinct (map stop_id (mapValues (stopById idx)))"
proof -
  from assms obtain sh srs where
    s: "stopById idx = foldl (stopsStep num (colIndex (parseCsvLine sh))) [] srs"
    by (auto simp: buildIndex_def buildStops_def split: sum.splits list.splits)
  have k: "distinct (map fst (stopById idx))" "\<forall>(k, s) \<in> set (stopById idx). stop_id s = k"
    using foldl_stopsStep_keys [of "[]" num "colIndex (parseCsvLine sh)" srs] s by simp_all
  from k(2) have "map stop_id (mapValues (stopById idx)) = map fst (stopById idx)"
    by (auto simp: mapValues_def)
  with k(1) show ?thesis by simp
qed

text \<open>The loop, the sort and the slice.\<close>

lemma nearbyEntry_Some:
  assumes "nearbyEntry ar idx la lo r st = Some e"
  shows "out_id e = stop_id st" "out_name e = stop_name st" "out_lat e = lat st"
    "out_lng e = lng st" "\<not> js_gt (haversineMiles ar la lo (Fin (lat st)) (Fin (lng st))) r"
    "distanceMi e = toFixedNum (haversineMiles ar la lo (Fin (lat st)) (Fin (lng st)))"
  using assms by (auto simp: nearbyEntry_def Let_def split: if_splits)

lemma nearbyEntry_None:
  "nearbyEntry ar idx la lo r st = None \<longleftrightarrow> js_gt (haversineMiles ar la lo (Fin (lat st)) (Fin (lng st))) r"
  by (auto simp: nearbyEntry_def Let_def)


lemma js_gt_Fin: "js_gt (Fin a) (Fin b) \<longleftrightarrow> b < a"
  by simp

lemma toFixedNum_Fin: "toFixedNum (Fin x) = Fin (toFixed2 x)"
  by (simp add: toFixedNum_def)

lemma isFin_toFixedNum: "isFin (toFixedNum x) \<longleftrightarrow> isFin x"
  by (cases x) (simp_all add: toFixedNum_def isFin_def)

lemma isFin_conv: "isFin x \<longleftrightarrow> (\<exists>a. x = Fin a)"
  by (cases x) (simp_all add: isFin_def)

lemma mset_sortByDistanceMi: "mset (sortByDistanceMi engine out) = mset out"
  by (simp add: sortByDistanceMi_def engineOrder_def)

lemma set_sortByDistanceMi: "set (sortByDistanceMi engine out) = set out"
  using mset_sortByDistanceMi [of engine out] by (rule mset_eq_setD)

lemma length_sortByDistanceMi: "length (sortByDistanceMi engine out) = length out"
  using mset_sortByDistanceMi [of engine out] by (rule mset_eq_length)

lemma set_sliceTo: "set (sliceTo n xs) \<subseteq> set xs"
  by (cases n) (auto simp: sliceTo_def dest: in_set_takeD)

lemma sliceTo_Fin: "0 \<le> v \<Longrightarrow> sliceTo (Fin v) xs = take (nat \<lfloor>v\<rfloor>) xs"
  by (simp add: sliceTo_def)

lemma findNearby_stops_from:
  assumes "e \<in> set (stops (findNearby engine ar idx la lo rm lmt))"
  shows "\<exists>st \<in> set (mapValues (stopById idx)).
           nearbyEntry ar idx la lo (radiusMiles ar rm) st = Some e"
proof -
  have "set (stops (findNearby engine ar idx la lo rm lmt))
      \<subseteq> set (sortByDistanceMi engine (candidates ar idx la lo (radiusMiles ar rm)))"
    by (simp add: findNearby_def Let_def set_sliceTo)
  with assms
  have "e \<in> set (sortByDistanceMi engine (candidates ar idx la lo (radiusMiles ar rm)))"
    by blast
  then have "e \<in> set (candidates ar idx la lo (radiusMiles ar rm))"
    by (simp only: set_sortByDistanceMi)
  then show ?thesis
    by (auto simp: candidates_def set_map_filter_conv)
qed

lemma nearbyEntry_routes:
  assumes "nearbyEntry ar idx la lo r st = Some e" and "ro \<in> set (routes e)"
  shows "\<exists>rid rt. mapGet (routeById idx) rid = Some rt \<and> ro = routeOutOf rt"
proof -
  from assms have "ro \<in> set (routesOfStop idx st)"
    by (auto simp: nearbyEntry_def Let_def split: if_splits dest: in_set_takeD)
  then show ?thesis
    by (auto simp: routesOfStop_def Let_def set_map_filter_conv)
qed

text \<open>The limit that reaches the slice is a number from 1 to 50.\<close>

lemma limitValue_Fin: "l \<noteq> 0 \<Longrightarrow> limitValue (Some (Fin l)) = Fin (max 1 (min 50 l))"
  by (simp add: limitValue_def js_truthy_def Let_def)

lemma limitValue_default:
  "limitValue None = Fin 12" "limitValue (Some NaN) = Fin 12" "limitValue (Some (Fin 0)) = Fin 12"
  by (simp_all add: limitValue_def js_truthy_def Let_def)

lemma limitValue_infinite:
  "limitValue (Some PosInf) = Fin 50" "limitValue (Some NegInf) = Fin 1"
  by (simp_all add: limitValue_def js_truthy_def Let_def)

lemma limitValue_range: "\<exists>v. limitValue lmt = Fin v \<and> 1 \<le> v \<and> v \<le> 50"
proof (cases lmt)
  case None
  then show ?thesis by (simp add: limitValue_default)
next
  case (Some x)
  show ?thesis
  proof (cases x)
    case (Fin l)
    show ?thesis
    proof (cases "l = 0")
      case True
      with Some Fin show ?thesis by (simp add: limitValue_default)
    next
      case False
      with Some Fin show ?thesis by (simp add: limitValue_Fin)
    qed
  qed (simp_all add: Some limitValue_default limitValue_infinite)
qed

lemma length_findNearby:
  assumes "limitValue lmt = Fin v" and "1 \<le> v"
  shows "length (stops (findNearby engine ar idx la lo rm lmt))
     = min (nat \<lfloor>v\<rfloor>) (length (candidates ar idx la lo (radiusMiles ar rm)))"
proof -
  from assms(2) have "0 \<le> v" by simp
  then show ?thesis
    by (simp add: findNearby_def Let_def assms(1) sliceTo_Fin length_sortByDistanceMi
        min.commute)
qed

lemma nat_floor_le_50:
  fixes v :: real
  assumes "v \<le> 50"
  shows "nat \<lfloor>v\<rfloor> \<le> 50"
proof -
  from assms have "\<lfloor>v\<rfloor> \<le> \<lfloor>50 :: real\<rfloor>" by (rule floor_mono)
  then have "\<lfloor>v\<rfloor> \<le> 50" by simp
  then show ?thesis by linarith
qed

lemma length_map_filter_all:
  assumes "\<forall>x \<in> set xs. f x \<noteq> None"
  shows "length (List.map_filter f xs) = length xs"
  using assms by (induction xs) (auto simp: List.map_filter_simps)

lemma candidates_all:
  assumes "\<forall>st \<in> set (mapValues (stopById idx)).
             \<not> js_gt (haversineMiles ar la lo (Fin (lat st)) (Fin (lng st))) r"
  shows "length (candidates ar idx la lo r) = length (mapValues (stopById idx))"
  unfolding candidates_def
  by (rule length_map_filter_all) (use assms in \<open>simp add: nearbyEntry_None\<close>)

text \<open>With numeric distances the sort is the stable sort by \<^verbatim>\<open>distanceMi\<close>.\<close>

lemma candidates_numeric:
  assumes "\<forall>st \<in> set (mapValues (stopById idx)).
             isFin (haversineMiles ar la lo (Fin (lat st)) (Fin (lng st)))"
  shows "\<forall>e \<in> set (candidates ar idx la lo r). isFin (distanceMi e)"
proof
  fix e assume "e \<in> set (candidates ar idx la lo r)"
  then obtain st where st: "st \<in> set (mapValues (stopById idx))"
      "nearbyEntry ar idx la lo r st = Some e"
    by (auto simp: candidates_def set_map_filter_conv)
  from nearbyEntry_Some(6) [OF st(2)] assms st(1) show "isFin (distanceMi e)"
    by (simp add: isFin_toFixedNum)
qed

lemma findNearby_numeric:
  assumes "\<forall>st \<in> set (mapValues (stopById idx)).
             isFin (haversineMiles ar la lo (Fin (lat st)) (Fin (lng st)))"
  shows "stops (findNearby engine ar idx la lo rm lmt)
     = sliceTo (limitValue lmt)
         (sort_key (\<lambda>e. numOf (distanceMi e)) (candidates ar idx la lo (radiusMiles ar rm)))"
  using candidates_numeric [OF assms, of "radiusMiles ar rm"]
  by (simp add: findNearby_def Let_def sortByDistanceMi_def list_all_iff)

lemma findNearby_numeric_prefix:
  assumes "\<forall>st \<in> set (mapValues (stopById idx)).
             isFin (haversineMiles ar la lo (Fin (lat st)) (Fin (lng st)))"
  shows "prefix (stops (findNearby engine ar idx la lo rm lmt))
     (sort_key (\<lambda>e. numOf (distanceMi e)) (candidates ar idx la lo (radiusMiles ar rm)))"
proof -
  from limitValue_range [of lmt] obtain v where v: "limitValue lmt = Fin v" "1 \<le> v" by blast
  then have "0 \<le> v" by simp
  then show ?thesis
    unfolding findNearby_numeric [OF assms] v(1) by (simp add: sliceTo_Fin take_is_prefix)
qed

lemma findNearby_sorted:
  assumes "\<forall>st \<in> set (mapValues (stopById idx)).
             isFin (haversineMiles ar la lo (Fin (lat st)) (Fin (lng st)))"
  shows "sorted (map (\<lambda>e. numOf (distanceMi e)) (stops (findNearby engine ar idx la lo rm lmt)))"
proof -
  let ?s = "sort_key (\<lambda>e. numOf (distanceMi e)) (candidates ar idx la lo (radiusMiles ar rm))"
  from findNearby_numeric_prefix [OF assms, of engine rm lmt] obtain zs where
    zs: "?s = stops (findNearby engine ar idx la lo rm lmt) @ zs" by (auto simp: prefix_def)
  have "sorted (map (\<lambda>e. numOf (distanceMi e)) ?s)" by (rule sorted_sort_key)
  then show ?thesis unfolding zs by (simp add: sorted_append)
qed

lemma findNearby_numeric_entries:
  assumes "\<forall>st \<in> set (mapValues (stopById idx)).
             isFin (haversineMiles ar la lo (Fin (lat st)) (Fin (lng st)))"
    and "e \<in> set (stops (findNearby engine ar idx la lo rm lmt))"
  shows "isFin (distanceMi e)"
proof -
  from findNearby_stops_from [OF assms(2)] obtain st where
    st: "st \<in> set (mapValues (stopById idx))"
      "nearbyEntry ar idx la lo (radiusMiles ar rm) st = Some e" by blast
  from nearbyEntry_Some(6) [OF st(2)] assms(1) st(1) show ?thesis
    by (simp add: isFin_toFixedNum)
qed

lemma candidates_filter_ids:
  "map out_id (filter (\<lambda>e. distanceMi e = k) (List.map_filter (nearbyEntry ar idx la lo r) sts))
     = map stop_id (filter (\<lambda>st. \<not> js_gt (haversineMiles ar la lo (Fin (lat st)) (Fin (lng st))) r \<and>
                              toFixedNum (haversineMiles ar la lo (Fin (lat st)) (Fin (lng st))) = k) sts)"
proof (induction sts)
  case Nil
  then show ?case by (simp add: List.map_filter_simps)
next
  case (Cons st sts)
  show ?case
  proof (cases "nearbyEntry ar idx la lo r st")
    case None
    then have "js_gt (haversineMiles ar la lo (Fin (lat st)) (Fin (lng st))) r"
      by (simp add: nearbyEntry_None)
    then show ?thesis using Cons.IH by (simp add: None List.map_filter_simps)
  next
    case (Some e)
    from nearbyEntry_Some [OF Some] Some show ?thesis
      using Cons.IH by (simp add: List.map_filter_simps)
  qed
qed

lemma findNearby_stable:
  assumes "\<forall>st \<in> set (mapValues (stopById idx)).
             isFin (haversineMiles ar la lo (Fin (lat st)) (Fin (lng st)))"
  shows "prefix
     (map out_id (filter (\<lambda>e. distanceMi e = Fin k) (stops (findNearby engine ar idx la lo rm lmt))))
     (map stop_id
        (filter (\<lambda>st. \<not> js_gt (haversineMiles ar la lo (Fin (lat st)) (Fin (lng st))) (radiusMiles ar rm) \<and>
                      toFixedNum (haversineMiles ar la lo (Fin (lat st)) (Fin (lng st))) = Fin k)
           (mapValues (stopById idx))))"
proof -
  let ?c = "candidates ar idx la lo (radiusMiles ar rm)"
  let ?f = "\<lambda>e. numOf (distanceMi e)"
  let ?R = "stops (findNearby engine ar idx la lo rm lmt)"
  have num: "\<forall>e \<in> set ?c. isFin (distanceMi e)" by (rule candidates_numeric [OF assms])
  have eq: "filter (\<lambda>e. distanceMi e = Fin k) xs = filter (\<lambda>e. ?f e = k) xs"
    if "set xs \<subseteq> set ?c" for xs
  proof (rule filter_cong [OF refl])
    fix e assume "e \<in> set xs"
    with that num have "isFin (distanceMi e)" by blast
    then show "(distanceMi e = Fin k) = (?f e = k)" by (auto simp: isFin_conv numOf_def)
  qed
  have "prefix ?R (sort_key ?f ?c)" by (rule findNearby_numeric_prefix [OF assms])
  then have "prefix (filter (\<lambda>e. distanceMi e = Fin k) ?R)
               (filter (\<lambda>e. distanceMi e = Fin k) (sort_key ?f ?c))"
    by (rule filter_mono_prefix)
  also have "filter (\<lambda>e. distanceMi e = Fin k) (sort_key ?f ?c) = filter (\<lambda>e. ?f e = k) (sort_key ?f ?c)"
    by (rule eq) simp
  also have "\<dots> = filter (\<lambda>e. ?f e = k) ?c" by (simp only: sort_key_stable)
  also have "\<dots> = filter (\<lambda>e. distanceMi e = Fin k) ?c" by (rule eq [symmetric]) simp
  finally have "prefix (map out_id (filter (\<lambda>e. distanceMi e = Fin k) ?R))
               (map out_id (filter (\<lambda>e. distanceMi e = Fin k) ?c))"
    by (rule map_mono_prefix)
  then show ?thesis by (simp add: candidates_def candidates_filter_ids)
qed

text \<open>The examples.\<close>

lemma radiusMiles_500: "radiusMiles idealArith (Some (Fin 500)) = Fin miles500"
  by (simp add: radiusMiles_def ideal_defs miles500_def)

lemma radiusMiles_1200: "radiusMiles idealArith (Some (Fin 1200)) = Fin miles1200"
  by (simp add: radiusMiles_def ideal_defs miles1200_def)

lemma miles_bounds: "0 \<le> miles500" "miles500 < 0.745" "0.7456 < miles1200" "miles1200 < 0.75"
  by (simp_all add: miles500_def miles1200_def)

lemma sortByDistanceMi_single: "sortByDistanceMi engine [e] = [e]"
  using mset_sortByDistanceMi [of engine "[e]"] by simp

lemma limitValue_examples:
  "limitValue (Some (Fin 10)) = Fin 10" "limitValue (Some (Fin 12)) = Fin 12"
  "limitValue (Some (Fin (- 5))) = Fin 1"
  by (simp_all add: limitValue_Fin)

lemma demoIndex_built:
  "buildIndex demoNum (Some ''2024-05-01T00:00:00.000Z'') (Some demoFiles) = Inr demoIndex"
  by (simp add: demoFiles_def demoIndex_def demoNum_def build_defs Let_def)

lemma demo_candidates:
  "candidates idealArith demoIndex (Fin 41.88) (Fin (- 87.63)) (Fin miles500) = [demoStop]"
  using miles_bounds(1)
  by (simp add: candidates_def mapValues_def nearbyEntry_def demoIndex_def demoStop_def
      demoRoute_def List.map_filter_simps
      haversineMiles_same toFixedNum_Fin toFixed2_zero routesOfStop_def mapGet_def
      routeOutOf_def classifyMode_def setAdd_def Let_def)

lemma demo_findNearby:
  "stops (findNearby keepOrder idealArith demoIndex (Fin 41.88) (Fin (- 87.63)) (Some (Fin 500))
     (Some (Fin 10))) = [demoStop]"
  unfolding findNearby_def Let_def radiusMiles_500 demo_candidates limitValue_examples
    sortByDistanceMi_single
  by (simp add: sliceTo_def)

lemma demoStop_found:
  "demoStop \<in> set (stops (findNearby keepOrder idealArith demoIndex (Fin 41.88) (Fin (- 87.63))
     (Some (Fin 500)) (Some (Fin 10))))"
  unfolding demo_findNearby by simp

lemma demo_findNearby_minus5:
  "stops (findNearby keepOrder idealArith demoIndex (Fin 41.88) (Fin (- 87.63)) (Some (Fin 500))
     (Some (Fin (- 5)))) = [demoStop]"
  unfolding findNearby_def Let_def radiusMiles_500 demo_candidates limitValue_examples
    sortByDistanceMi_single
  by (simp add: sliceTo_def)






lemma trio_candidates:
  "candidates idealArith trioIndex (Fin queryLat) (Fin queryLng) (Fin miles1200)
     = [northStop, pairStop, nearStop]"
proof -
  have "\<not> miles1200 < northMiles" "\<not> miles1200 < nearMiles" "\<not> miles1200 < 0"
    using north_distance_bounds(2) near_distance_bounds(2) miles_bounds(3) by simp_all
  then show ?thesis
    by (simp add: candidates_def mapValues_def nearbyEntry_def trioIndex_def northStop_def
        pairStop_def nearStop_def List.map_filter_simps north_distance near_distance
        haversineMiles_same toFixedNum_Fin toFixed2_zero north_distance_fixed
        near_distance_fixed routesOfStop_def mapGet_def Let_def)
qed

lemma trio_sorted:
  "sortByDistanceMi keepOrder [northStop, pairStop, nearStop] = [pairStop, northStop, nearStop]"
  by (simp add: sortByDistanceMi_def northStop_def pairStop_def nearStop_def isFin_def
      numOf_def)

lemma trio_findNearby:
  "stops (findNearby keepOrder idealArith trioIndex (Fin queryLat) (Fin queryLng) (Some (Fin 1200))
     (Some (Fin 12))) = [pairStop, northStop, nearStop]"
  unfolding findNearby_def Let_def radiusMiles_1200 trio_candidates limitValue_examples
    trio_sorted
  by (simp add: sliceTo_def)

lemma trio_distances:
  "map (\<lambda>st. haversineMiles idealArith (Fin queryLat) (Fin queryLng) (Fin (lat st)) (Fin (lng st)))
     (mapValues (stopById trioIndex)) = [Fin northMiles, Fin 0, Fin nearMiles]"
  by (simp add: trioIndex_def mapValues_def north_distance near_distance haversineMiles_same)

lemma trio_numeric:
  "\<forall>st \<in> set (mapValues (stopById trioIndex)).
     isFin (haversineMiles idealArith (Fin queryLat) (Fin queryLng) (Fin (lat st)) (Fin (lng st)))"
  by (simp add: trioIndex_def mapValues_def north_distance near_distance haversineMiles_same
      isFin_def)

lemma crowd_candidates:
  "length (candidates idealArith crowdIndex (Fin queryLat) (Fin queryLng) (Fin miles500)) = 60"
proof -
  have "\<forall>st \<in> set (mapValues (stopById crowdIndex)).
          \<not> js_gt (haversineMiles idealArith (Fin queryLat) (Fin queryLng) (Fin (lat st)) (Fin (lng st))) (Fin miles500)"
    using miles_bounds(1)
    by (auto simp: crowdIndex_def mapValues_def crowdStop_def haversineMiles_same)
  from candidates_all [OF this] show ?thesis
    by (simp add: crowdIndex_def mapValues_def)
qed

text \<open>
  C2, as the code has it. The result never has more than 50 stops. A numeric limit other
  than zero is clamped into the range from 1 to 50 and its fraction dropped, never rejected:
  the result has that many stops, or all the stops in the radius when they are fewer. So it
  has at most \<open>limit\<close> stops when the limit is at least 1, and at most one stop when the
  limit is below 1. An infinite limit counts as 50 or as 1; a limit that is omitted, zero or
  not a number counts as 12.
\<close>

theorem findNearby_limit:
  "length (stops (findNearby engine ar idx la lo rm lmt)) \<le> 50 \<and>
   (\<forall>l. lmt = Some (Fin l) \<and> l \<noteq> 0 \<longrightarrow>
      length (stops (findNearby engine ar idx la lo rm lmt))
        = min (nat \<lfloor>max 1 (min 50 l)\<rfloor>)
            (length (candidates ar idx la lo (radiusMiles ar rm)))) \<and>
   (\<forall>l. lmt = Some (Fin l) \<and> 1 \<le> l \<longrightarrow>
      real (length (stops (findNearby engine ar idx la lo rm lmt))) \<le> l) \<and>
   (\<forall>l. lmt = Some (Fin l) \<and> l < 1 \<and> l \<noteq> 0 \<longrightarrow>
      length (stops (findNearby engine ar idx la lo rm lmt)) \<le> 1) \<and>
   (lmt = Some PosInf \<longrightarrow>
      length (stops (findNearby engine ar idx la lo rm lmt))
        = min 50 (length (candidates ar idx la lo (radiusMiles ar rm)))) \<and>
   (lmt = Some NegInf \<longrightarrow>
      length (stops (findNearby engine ar idx la lo rm lmt))
        = min 1 (length (candidates ar idx la lo (radiusMiles ar rm)))) \<and>
   (lmt = None \<or> lmt = Some NaN \<or> lmt = Some (Fin 0) \<longrightarrow>
      length (stops (findNearby engine ar idx la lo rm lmt))
        = min 12 (length (candidates ar idx la lo (radiusMiles ar rm))))"
proof (intro conjI allI impI)
  from limitValue_range [of lmt] obtain v where v: "limitValue lmt = Fin v" "1 \<le> v" "v \<le> 50"
    by blast
  from nat_floor_le_50 [OF v(3)] show "length (stops (findNearby engine ar idx la lo rm lmt)) \<le> 50"
    by (simp add: length_findNearby [OF v(1) v(2)])
next
  fix l assume a: "lmt = Some (Fin l) \<and> l \<noteq> 0"
  then have "limitValue lmt = Fin (max 1 (min 50 l))" by (simp add: limitValue_Fin)
  from length_findNearby [OF this]
  show "length (stops (findNearby engine ar idx la lo rm lmt))
        = min (nat \<lfloor>max 1 (min 50 l)\<rfloor>)
            (length (candidates ar idx la lo (radiusMiles ar rm)))" by simp
next
  fix l assume a: "lmt = Some (Fin l) \<and> 1 \<le> l"
  then have "limitValue lmt = Fin (max 1 (min 50 l))" by (simp add: limitValue_Fin)
  from length_findNearby [OF this]
  have "length (stops (findNearby engine ar idx la lo rm lmt)) \<le> nat \<lfloor>max 1 (min 50 l)\<rfloor>"
    by simp
  moreover have "real (nat \<lfloor>max 1 (min 50 l)\<rfloor>) \<le> l"
  proof -
    have "0 \<le> \<lfloor>max 1 (min 50 l)\<rfloor>" by simp
    then have "real (nat \<lfloor>max 1 (min 50 l)\<rfloor>) = of_int \<lfloor>max 1 (min 50 l)\<rfloor>" by simp
    also have "\<dots> \<le> max 1 (min 50 l)" by (rule of_int_floor_le)
    also have "\<dots> \<le> l" using a by simp
    finally show ?thesis .
  qed
  ultimately show "real (length (stops (findNearby engine ar idx la lo rm lmt))) \<le> l"
    by linarith
next
  fix l assume a: "lmt = Some (Fin l) \<and> l < 1 \<and> l \<noteq> 0"
  then have "max 1 (min 50 l) = 1" by simp
  with a have "limitValue lmt = Fin 1" by (simp add: limitValue_Fin)
  from length_findNearby [OF this]
  show "length (stops (findNearby engine ar idx la lo rm lmt)) \<le> 1" by simp
next
  assume "lmt = Some PosInf"
  then have "limitValue lmt = Fin 50" by (simp add: limitValue_infinite)
  from length_findNearby [OF this]
  show "length (stops (findNearby engine ar idx la lo rm lmt))
        = min 50 (length (candidates ar idx la lo (radiusMiles ar rm)))" by simp
next
  assume "lmt = Some NegInf"
  then have "limitValue lmt = Fin 1" by (simp add: limitValue_infinite)
  from length_findNearby [OF this]
  show "length (stops (findNearby engine ar idx la lo rm lmt))
        = min 1 (length (candidates ar idx la lo (radiusMiles ar rm)))" by simp
next
  assume "lmt = None \<or> lmt = Some NaN \<or> lmt = Some (Fin 0)"
  then have "limitValue lmt = Fin 12" by (auto simp: limitValue_default)
  from length_findNearby [OF this]
  show "length (stops (findNearby engine ar idx la lo rm lmt))
        = min 12 (length (candidates ar idx la lo (radiusMiles ar rm)))" by simp
qed

text \<open>
  C2 as stated fails for a limit below 1: with the limit \<open>-5\<close> the scenario's query returns
  one stop, which is more than the limit.
\<close>

theorem findNearby_negative_limit:
  "length (stops (findNearby keepOrder idealArith demoIndex (Fin 41.88) (Fin (- 87.63)) (Some (Fin 500))
     (Some (Fin (- 5))))) = 1 \<and>
   \<not> real (length (stops (findNearby keepOrder idealArith demoIndex (Fin 41.88) (Fin (- 87.63))
     (Some (Fin 500)) (Some (Fin (- 5)))))) \<le> - 5"
  unfolding demo_findNearby_minus5 by simp

text \<open>
  C2, at the table of sixty stops, all within the radius: the limit 1000 gives 50 stops, the
  limit 7 gives 7, the limit \<open>-5\<close> gives one, an infinite limit gives 50 or one, and no limit
  gives 12.
\<close>

theorem findNearby_limit_witness:
  "length (candidates idealArith crowdIndex (Fin queryLat) (Fin queryLng)
     (radiusMiles idealArith (Some (Fin 500)))) = 60 \<and>
   length (stops (findNearby keepOrder idealArith crowdIndex (Fin queryLat) (Fin queryLng) (Some (Fin 500))
     (Some (Fin 1000)))) = 50 \<and>
   length (stops (findNearby keepOrder idealArith crowdIndex (Fin queryLat) (Fin queryLng) (Some (Fin 500))
     (Some (Fin 7)))) = 7 \<and>
   length (stops (findNearby keepOrder idealArith crowdIndex (Fin queryLat) (Fin queryLng) (Some (Fin 500))
     (Some (Fin (- 5))))) = 1 \<and>
   length (stops (findNearby keepOrder idealArith crowdIndex (Fin queryLat) (Fin queryLng) (Some (Fin 500))
     (Some PosInf))) = 50 \<and>
   length (stops (findNearby keepOrder idealArith crowdIndex (Fin queryLat) (Fin queryLng) (Some (Fin 500))
     (Some NegInf))) = 1 \<and>
   length (stops (findNearby keepOrder idealArith crowdIndex (Fin queryLat) (Fin queryLng) (Some (Fin 500))
     None)) = 12"
proof -
  note c = crowd_candidates [folded radiusMiles_500]
  note th = findNearby_limit [of keepOrder idealArith crowdIndex "Fin queryLat" "Fin queryLng"
      "Some (Fin 500)"]
  have "Some (Fin 1000) = Some (Fin 1000) \<and> (1000 :: real) \<noteq> 0" by simp
  from th [of "Some (Fin 1000)", THEN conjunct2, THEN conjunct1, rule_format, OF this]
  have a: "length (stops (findNearby keepOrder idealArith crowdIndex (Fin queryLat) (Fin queryLng)
     (Some (Fin 500)) (Some (Fin 1000)))) = 50" unfolding c by simp
  have "Some (Fin 7) = Some (Fin 7) \<and> (7 :: real) \<noteq> 0" by simp
  from th [of "Some (Fin 7)", THEN conjunct2, THEN conjunct1, rule_format, OF this]
  have b: "length (stops (findNearby keepOrder idealArith crowdIndex (Fin queryLat) (Fin queryLng)
     (Some (Fin 500)) (Some (Fin 7)))) = 7" unfolding c by simp
  have "Some (Fin (- 5)) = Some (Fin (- 5)) \<and> (- 5 :: real) \<noteq> 0" by simp
  from th [of "Some (Fin (- 5))", THEN conjunct2, THEN conjunct1, rule_format, OF this]
  have d: "length (stops (findNearby keepOrder idealArith crowdIndex (Fin queryLat) (Fin queryLng)
     (Some (Fin 500)) (Some (Fin (- 5))))) = 1" unfolding c by simp
  from th [of "Some PosInf", THEN conjunct2, THEN conjunct2, THEN conjunct2, THEN conjunct2,
      THEN conjunct1, rule_format, OF refl]
  have e: "length (stops (findNearby keepOrder idealArith crowdIndex (Fin queryLat) (Fin queryLng)
     (Some (Fin 500)) (Some PosInf))) = 50" unfolding c by simp
  from th [of "Some NegInf", THEN conjunct2, THEN conjunct2, THEN conjunct2, THEN conjunct2,
      THEN conjunct2, THEN conjunct1, rule_format, OF refl]
  have f: "length (stops (findNearby keepOrder idealArith crowdIndex (Fin queryLat) (Fin queryLng)
     (Some (Fin 500)) (Some NegInf))) = 1" unfolding c by simp
  have "None = None \<or> None = Some NaN \<or> None = Some (Fin 0)" by simp
  from th [of None, THEN conjunct2, THEN conjunct2, THEN conjunct2, THEN conjunct2,
      THEN conjunct2, THEN conjunct2, rule_format, OF this]
  have g: "length (stops (findNearby keepOrder idealArith crowdIndex (Fin queryLat) (Fin queryLng)
     (Some (Fin 500)) None)) = 12" unfolding c by simp
  from c a b d e f g show ?thesis by blast
qed




text \<open>
  C9 as stated fails, because the sort compares the rounded \<^verbatim>\<open>distanceMi\<close>. In the table of
  three stops \<open>N1\<close> comes before \<open>M1\<close>, which is nearer; both have the \<^verbatim>\<open>distanceMi\<close> 0.75,
  and the result lists \<open>N1\<close> before \<open>M1\<close>.
\<close>

theorem nearer_stop_listed_later:
  "map out_id (stops (findNearby keepOrder idealArith trioIndex (Fin queryLat) (Fin queryLng)
     (Some (Fin 1200)) (Some (Fin 12)))) = [''Z9'', ''N1'', ''M1''] \<and>
   js_gt (haversineMiles idealArith (Fin queryLat) (Fin queryLng) (Fin (lat northRow)) (Fin (lng northRow)))
     (haversineMiles idealArith (Fin queryLat) (Fin queryLng) (Fin (lat nearRow)) (Fin (lng nearRow)))"
  unfolding trio_findNearby using near_distance_bounds(3)
  by (simp add: pairStop_def northStop_def nearStop_def northRow_def nearRow_def north_distance
      near_distance)

lemma findNearby_order_tolerance:
  assumes num: "\<forall>st \<in> set (mapValues (stopById idx)).
             isFin (haversineMiles ar la lo (Fin (lat st)) (Fin (lng st)))"
    and ij: "i < j" "j < length (stops (findNearby engine ar idx la lo rm lmt))"
  shows "\<exists>si \<in> set (mapValues (stopById idx)). \<exists>sj \<in> set (mapValues (stopById idx)).
           out_id (stops (findNearby engine ar idx la lo rm lmt) ! i) = stop_id si \<and>
           out_id (stops (findNearby engine ar idx la lo rm lmt) ! j) = stop_id sj \<and>
           numOf (haversineMiles ar la lo (Fin (lat si)) (Fin (lng si)))
             \<le> numOf (haversineMiles ar la lo (Fin (lat sj)) (Fin (lng sj))) + 1 / 100"
proof -
  let ?R = "stops (findNearby engine ar idx la lo rm lmt)"
  let ?f = "\<lambda>e. numOf (distanceMi e)"
  from ij have mi: "?R ! i \<in> set ?R" and mj: "?R ! j \<in> set ?R" by simp_all
  from findNearby_stops_from [OF mi] obtain si where
    si: "si \<in> set (mapValues (stopById idx))"
      "nearbyEntry ar idx la lo (radiusMiles ar rm) si = Some (?R ! i)" by blast
  from findNearby_stops_from [OF mj] obtain sj where
    sj: "sj \<in> set (mapValues (stopById idx))"
      "nearbyEntry ar idx la lo (radiusMiles ar rm) sj = Some (?R ! j)" by blast
  from num si(1) obtain xi where xi: "haversineMiles ar la lo (Fin (lat si)) (Fin (lng si)) = Fin xi"
    by (auto simp: isFin_conv)
  from num sj(1) obtain xj where xj: "haversineMiles ar la lo (Fin (lat sj)) (Fin (lng sj)) = Fin xj"
    by (auto simp: isFin_conv)
  have di: "?f (?R ! i) = toFixed2 xi"
    using nearbyEntry_Some(6) [OF si(2)] by (simp add: xi toFixedNum_Fin numOf_def)
  have dj: "?f (?R ! j) = toFixed2 xj"
    using nearbyEntry_Some(6) [OF sj(2)] by (simp add: xj toFixedNum_Fin numOf_def)
  have "sorted (map ?f ?R)" by (rule findNearby_sorted [OF num])
  from sorted_nth_mono [OF this, of i j] ij have "?f (?R ! i) \<le> ?f (?R ! j)" by simp
  with di dj have "toFixed2 xi \<le> toFixed2 xj" by simp
  with toFixed2_error [of xi] toFixed2_error [of xj] have "xi \<le> xj + 1 / 100" by linarith
  then have "numOf (haversineMiles ar la lo (Fin (lat si)) (Fin (lng si)))
      \<le> numOf (haversineMiles ar la lo (Fin (lat sj)) (Fin (lng sj))) + 1 / 100"
    by (simp add: xi xj numOf_def)
  with si(1) sj(1) nearbyEntry_Some(1) [OF si(2)] nearbyEntry_Some(1) [OF sj(2)]
  show ?thesis by blast
qed

text \<open>
  C9, as the code has it, when the distance of every stop of the table is a number. The
  returned stops are in ascending order of the rounded \<^verbatim>\<open>distanceMi\<close>, so a stop listed
  before another is at most 0.01 miles farther away. For every value \<open>k\<close>, the returned stops
  whose \<^verbatim>\<open>distanceMi\<close> is \<open>k\<close> are, in this order, the first of the stops of the table that
  passed the radius test with the rounded distance \<open>k\<close>: stops with equal \<^verbatim>\<open>distanceMi\<close>
  keep the order of the table. The result does not depend on the engine.
\<close>

theorem findNearby_sorted_stable:
  assumes "\<forall>st \<in> set (mapValues (stopById idx)).
             isFin (haversineMiles ar la lo (Fin (lat st)) (Fin (lng st)))"
  shows "sorted (map (\<lambda>e. numOf (distanceMi e)) (stops (findNearby engine ar idx la lo rm lmt))) \<and>
   (\<forall>e \<in> set (stops (findNearby engine ar idx la lo rm lmt)). isFin (distanceMi e)) \<and>
   (\<forall>i j. i < j \<and> j < length (stops (findNearby engine ar idx la lo rm lmt)) \<longrightarrow>
      (\<exists>si \<in> set (mapValues (stopById idx)). \<exists>sj \<in> set (mapValues (stopById idx)).
         out_id (stops (findNearby engine ar idx la lo rm lmt) ! i) = stop_id si \<and>
         out_id (stops (findNearby engine ar idx la lo rm lmt) ! j) = stop_id sj \<and>
         numOf (haversineMiles ar la lo (Fin (lat si)) (Fin (lng si)))
           \<le> numOf (haversineMiles ar la lo (Fin (lat sj)) (Fin (lng sj))) + 1 / 100)) \<and>
   (\<forall>k. prefix
      (map out_id (filter (\<lambda>e. distanceMi e = Fin k)
         (stops (findNearby engine ar idx la lo rm lmt))))
      (map stop_id
         (filter (\<lambda>st. \<not> js_gt (haversineMiles ar la lo (Fin (lat st)) (Fin (lng st))) (radiusMiles ar rm) \<and>
                       toFixedNum (haversineMiles ar la lo (Fin (lat st)) (Fin (lng st))) = Fin k)
            (mapValues (stopById idx))))) \<and>
   findNearby engine ar idx la lo rm lmt = findNearby engine' ar idx la lo rm lmt"
proof (intro conjI ballI allI impI)
  show "sorted (map (\<lambda>e. numOf (distanceMi e)) (stops (findNearby engine ar idx la lo rm lmt)))"
    by (rule findNearby_sorted [OF assms])
next
  fix e assume "e \<in> set (stops (findNearby engine ar idx la lo rm lmt))"
  then show "isFin (distanceMi e)" by (rule findNearby_numeric_entries [OF assms])
next
  fix i j assume "i < j \<and> j < length (stops (findNearby engine ar idx la lo rm lmt))"
  then have "i < j" "j < length (stops (findNearby engine ar idx la lo rm lmt))" by simp_all
  then show "\<exists>si \<in> set (mapValues (stopById idx)). \<exists>sj \<in> set (mapValues (stopById idx)).
         out_id (stops (findNearby engine ar idx la lo rm lmt) ! i) = stop_id si \<and>
         out_id (stops (findNearby engine ar idx la lo rm lmt) ! j) = stop_id sj \<and>
         numOf (haversineMiles ar la lo (Fin (lat si)) (Fin (lng si)))
           \<le> numOf (haversineMiles ar la lo (Fin (lat sj)) (Fin (lng sj))) + 1 / 100"
    by (rule findNearby_order_tolerance [OF assms])
next
  fix k
  show "prefix
      (map out_id (filter (\<lambda>e. distanceMi e = Fin k)
         (stops (findNearby engine ar idx la lo rm lmt))))
      (map stop_id
         (filter (\<lambda>st. \<not> js_gt (haversineMiles ar la lo (Fin (lat st)) (Fin (lng st))) (radiusMiles ar rm) \<and>
                       toFixedNum (haversineMiles ar la lo (Fin (lat st)) (Fin (lng st))) = Fin k)
            (mapValues (stopById idx))))"
    by (rule findNearby_stable [OF assms])
next
  have "stops (findNearby engine ar idx la lo rm lmt) = stops (findNearby engine' ar idx la lo rm lmt)"
    by (simp only: findNearby_numeric [OF assms])
  then show "findNearby engine ar idx la lo rm lmt = findNearby engine' ar idx la lo rm lmt"
    by (simp add: findNearby_def Let_def)
qed

text \<open>
  C9, at the table of three stops: every distance is a number; \<open>Z9\<close>, at the query point,
  is moved to the front; \<open>N1\<close> and \<open>M1\<close>, with equal \<^verbatim>\<open>distanceMi\<close>, keep the order of the
  table.
\<close>

theorem findNearby_sorted_stable_witness:
  "map (\<lambda>st. haversineMiles idealArith (Fin queryLat) (Fin queryLng) (Fin (lat st)) (Fin (lng st)))
     (mapValues (stopById trioIndex)) = [Fin northMiles, Fin 0, Fin nearMiles] \<and>
   map stop_id (mapValues (stopById trioIndex)) = [''N1'', ''Z9'', ''M1''] \<and>
   stops (findNearby keepOrder idealArith trioIndex (Fin queryLat) (Fin queryLng) (Some (Fin 1200))
     (Some (Fin 12))) = [pairStop, northStop, nearStop] \<and>
   map out_id [pairStop, northStop, nearStop] = [''Z9'', ''N1'', ''M1''] \<and>
   sorted (map (\<lambda>e. numOf (distanceMi e)) [pairStop, northStop, nearStop]) \<and>
   (1 :: nat) < 2 \<and> 2 < length [pairStop, northStop, nearStop] \<and>
   (\<exists>si \<in> set (mapValues (stopById trioIndex)). \<exists>sj \<in> set (mapValues (stopById trioIndex)).
      out_id ([pairStop, northStop, nearStop] ! 1) = stop_id si \<and>
      out_id ([pairStop, northStop, nearStop] ! 2) = stop_id sj \<and>
      numOf (haversineMiles idealArith (Fin queryLat) (Fin queryLng) (Fin (lat si)) (Fin (lng si)))
        \<le> numOf (haversineMiles idealArith (Fin queryLat) (Fin queryLng) (Fin (lat sj)) (Fin (lng sj))) + 1 / 100) \<and>
   map out_id (filter (\<lambda>e. distanceMi e = Fin (3 / 4)) [pairStop, northStop, nearStop])
     = [''N1'', ''M1''] \<and>
   prefix
     (map out_id (filter (\<lambda>e. distanceMi e = Fin (3 / 4)) [pairStop, northStop, nearStop]))
     (map stop_id
        (filter (\<lambda>st. \<not> js_gt (haversineMiles idealArith (Fin queryLat) (Fin queryLng) (Fin (lat st)) (Fin (lng st)))
                         (radiusMiles idealArith (Some (Fin 1200))) \<and>
                      toFixedNum (haversineMiles idealArith (Fin queryLat) (Fin queryLng) (Fin (lat st)) (Fin (lng st)))
                        = Fin (3 / 4))
           (mapValues (stopById trioIndex))))"
proof -
  note th = findNearby_sorted_stable [OF trio_numeric, where engine = keepOrder
      and rm = "Some (Fin 1200)" and lmt = "Some (Fin 12)" and engine' = keepOrder,
      unfolded trio_findNearby]
  have ids: "map stop_id (mapValues (stopById trioIndex)) = [''N1'', ''Z9'', ''M1'']"
    by (simp add: trioIndex_def mapValues_def)
  have out: "map out_id [pairStop, northStop, nearStop] = [''Z9'', ''N1'', ''M1'']"
    by (simp add: pairStop_def northStop_def nearStop_def)
  from th have s: "sorted (map (\<lambda>e. numOf (distanceMi e)) [pairStop, northStop, nearStop])"
    by (rule conjunct1)
  have l: "(1 :: nat) < 2 \<and> 2 < length [pairStop, northStop, nearStop]" by simp
  note t = th [THEN conjunct2, THEN conjunct2, THEN conjunct1, rule_format, OF l]
  have f: "map out_id (filter (\<lambda>e. distanceMi e = Fin (3 / 4)) [pairStop, northStop, nearStop])
     = [''N1'', ''M1'']"
    by (simp add: pairStop_def northStop_def nearStop_def)
  note p = th [THEN conjunct2, THEN conjunct2, THEN conjunct2, THEN conjunct1, rule_format,
      of "3 / 4"]
  from trio_distances ids trio_findNearby out s l t f p show ?thesis by blast
qed



section \<open>Route ids and the route table\<close>

lemma routesStep_key:
  assumes "\<And>k r. mapGet m k = Some r \<Longrightarrow> route_id r = k"
    and "mapGet (routesStep num ridx m line) k = Some r"
  shows "route_id r = k"
  using assms
  by (auto simp: routesStep_def Let_def mapGet_mapSet split: option.splits if_splits)

lemma foldl_routesStep_key:
  assumes "\<And>k r. mapGet m k = Some r \<Longrightarrow> route_id r = k"
    and "mapGet (foldl (routesStep num ridx) m rows) k = Some r"
  shows "route_id r = k"
  using assms
proof (induction rows arbitrary: m)
  case Nil
  then show ?case by simp
next
  case (Cons line rows)
  show ?case
  proof (rule Cons.IH [of "routesStep num ridx m line"])
    fix k' r'
    assume "mapGet (routesStep num ridx m line) k' = Some r'"
    then show "route_id r' = k'"
      using Cons.prems(1) routesStep_key by blast
  next
    show "mapGet (foldl (routesStep num ridx) (routesStep num ridx m line) rows) k = Some r"
      using Cons.prems(2) by simp
  qed
qed

lemma buildIndex_routeById_key:
  assumes "buildIndex num u z = Inr idx" and "mapGet (routeById idx) k = Some r"
  shows "route_id r = k"
proof -
  from assms(1) obtain rh rrs where
    "routeById idx = foldl (routesStep num (colIndex (parseCsvLine rh))) [] rrs"
    by (auto simp: buildIndex_def buildRoutes_def split: sum.splits list.splits)
  with assms(2) show ?thesis
    using foldl_routesStep_key [of "[]" num "colIndex (parseCsvLine rh)" rrs k r]
    by (simp add: mapGet_Nil)
qed

lemma buildIndex_tables:
  assumes "buildIndex num u z = Inr idx"
  shows "\<exists>fs tripsHeader tripsRows stHeader stRows.
           z = Some fs \<and> fs ''trips.txt'' = Some (tripsHeader # tripsRows) \<and>
           fs ''stop_times.txt'' = Some (stHeader # stRows)"
  using assms
  by (auto simp: buildIndex_def readZipEntryToLines_def buildTrips_def buildStopToRoutes_def
      split: sum.splits option.splits list.splits)

lemma rowRoute_resolved:
  "rowRoute stIdx t2r s line = Some r \<Longrightarrow> \<exists>t. mapGet t2r t = Some r"
  by (auto simp: rowRoute_def Let_def split: option.splits if_splits)

lemma servingRoutes_resolved:
  "r \<in> set (servingRoutes stIdx t2r rows s) \<Longrightarrow> \<exists>t. mapGet t2r t = Some r"
  by (auto simp: servingRoutes_def set_map_filter_conv dest: rowRoute_resolved)

lemma demo_trips:
  "demoFiles ''trips.txt'' = Some (''route_id,trip_id'' # [''R1,trip1'', ''R9,trip2''])"
  by (simp add: demoFiles_def)

lemma demo_tripToRoute:
  "mapGet (foldl (tripsStep (colIndex (parseCsvLine ''route_id,trip_id''))) []
       [''R1,trip1'', ''R9,trip2'']) ''trip2'' = Some ''R9''"
  by (simp add: build_defs Let_def)

text \<open>
  C4 as stated fails: the builder looks a route id up in the trips table only. In the
  archive whose trip names the route \<open>R9\<close>, the set of \<open>S1\<close> holds \<open>R9\<close> and the route
  table has no \<open>R9\<close>.
\<close>

theorem unresolved_route_stored:
  "buildIndex noNumber None (Some ghostFiles) = Inr ghostIndex \<and>
   mapGet (stopToRoutes ghostIndex) ''S1'' = Some [''R9''] \<and>
   mapGet (routeById ghostIndex) ''R9'' = None"
  by (simp add: ghostFiles_def ghostIndex_def noNumber_def build_defs Let_def)

text \<open>
  C4, as the code has it. Every route id in a route set of the built index is the route id
  of a trip of the trips table. An id without a route record stays in the set and is dropped
  when \<^verbatim>\<open>findNearby\<close> attaches the routes: every route attached to a returned stop is a key
  of the route table.
\<close>

theorem routes_resolved_at_query:
  assumes "buildIndex num u (Some fs) = Inr idx"
    and "fs ''trips.txt'' = Some (tripsHeader # tripsRows)"
  shows "(\<forall>s st r. mapGet (stopToRoutes idx) s = Some st \<and> r \<in> set st \<longrightarrow>
            (\<exists>t. mapGet (foldl (tripsStep (colIndex (parseCsvLine tripsHeader))) [] tripsRows) t
                    = Some r)) \<and>
         (\<forall>e \<in> set (stops (findNearby engine ar idx la lo rm lmt)). \<forall>ro \<in> set (routes e).
            mapGet (routeById idx) (ro_id ro) \<noteq> None)"
proof (intro conjI allI impI ballI)
  fix s st r
  assume a: "mapGet (stopToRoutes idx) s = Some st \<and> r \<in> set st"
  from buildIndex_tables [OF assms(1)] assms(2) obtain stHeader stRows where
    st: "fs ''stop_times.txt'' = Some (stHeader # stRows)" by auto
  define t2r where "t2r = foldl (tripsStep (colIndex (parseCsvLine tripsHeader))) [] tripsRows"
  define rs where "rs = servingRoutes (colIndex (parseCsvLine stHeader)) t2r stRows s"
  have "mapGet (stopToRoutes idx) s = (if rs = [] then None else Some (foldl capAdd [] rs))"
    using buildIndex_stopToRoutes [OF assms(1) assms(2) st]
    by (simp add: foldl_stopTimesStep_get mapGet_Nil rs_def t2r_def)
  with a have "r \<in> set (take 12 (firstDistinct rs))"
    by (auto simp: foldl_capAdd_firstDistinct split: if_splits)
  then have "r \<in> set rs"
    using set_firstDistinct [of rs] by (auto dest: in_set_takeD)
  then show "\<exists>t. mapGet (foldl (tripsStep (colIndex (parseCsvLine tripsHeader))) [] tripsRows) t
                    = Some r"
    unfolding rs_def t2r_def by (rule servingRoutes_resolved)
next
  fix e ro
  assume e: "e \<in> set (stops (findNearby engine ar idx la lo rm lmt))" and ro: "ro \<in> set (routes e)"
  from findNearby_stops_from [OF e] obtain st where
    "nearbyEntry ar idx la lo (radiusMiles ar rm) st = Some e" by blast
  from nearbyEntry_routes [OF this ro] obtain rid rt where
    rt: "mapGet (routeById idx) rid = Some rt" "ro = routeOutOf rt" by blast
  from buildIndex_routeById_key [OF assms(1) rt(1)] have "route_id rt = rid" .
  with rt show "mapGet (routeById idx) (ro_id ro) \<noteq> None"
    by (simp add: routeOutOf_def)
qed

text \<open>
  C4, at the scenario: \<open>R9\<close>, the route of \<open>trip2\<close>, is in the set of \<open>S1\<close> and not in
  the route table, and the returned stop has the route \<open>R1\<close> only.
\<close>

theorem routes_resolved_at_query_witness:
  "buildIndex demoNum (Some ''2024-05-01T00:00:00.000Z'') (Some demoFiles) = Inr demoIndex \<and>
   demoFiles ''trips.txt'' = Some (''route_id,trip_id'' # [''R1,trip1'', ''R9,trip2'']) \<and>
   mapGet (stopToRoutes demoIndex) ''S1'' = Some [''R1'', ''R9''] \<and>
   mapGet (foldl (tripsStep (colIndex (parseCsvLine ''route_id,trip_id''))) []
       [''R1,trip1'', ''R9,trip2'']) ''trip2'' = Some ''R9'' \<and>
   mapGet (routeById demoIndex) ''R9'' = None \<and>
   demoStop \<in> set (stops (findNearby keepOrder idealArith demoIndex (Fin 41.88) (Fin (- 87.63))
     (Some (Fin 500)) (Some (Fin 10)))) \<and>
   demoRoute \<in> set (routes demoStop) \<and>
   mapGet (routeById demoIndex) (ro_id demoRoute) \<noteq> None"
proof -
  note th = routes_resolved_at_query [OF demoIndex_built demo_trips,
      where engine = keepOrder and ar = idealArith and la = "Fin 41.88" and lo = "Fin (- 87.63)"
      and rm = "Some (Fin 500)" and lmt = "Some (Fin 10)"]
  have ro: "demoRoute \<in> set (routes demoStop)" by (simp add: demoStop_def)
  from th [THEN conjunct2, rule_format, OF demoStop_found ro]
  have "mapGet (routeById demoIndex) (ro_id demoRoute) \<noteq> None" .
  moreover have "mapGet (stopToRoutes demoIndex) ''S1'' = Some [''R1'', ''R9'']"
    "mapGet (routeById demoIndex) ''R9'' = None"
    by (simp_all add: demoIndex_def mapGet_def)
  ultimately show ?thesis
    using demoIndex_built demo_trips demoStop_found ro demo_tripToRoute by blast
qed

section \<open>The build coordinator\<close>

lemma getIndex_stale_pending:
  "\<not> indexFresh now s \<Longrightarrow> inFlight s = Some p \<Longrightarrow> getIndex now s = (Awaiting p, s)"
  by (auto simp: getIndex_def indexFresh_def split: option.splits)

lemma getIndex_stale_idle:
  "\<not> indexFresh now s \<Longrightarrow> inFlight s = None \<Longrightarrow>
     getIndex now s = (Awaiting (builds s), startBuild now s)"
  by (auto simp: getIndex_def indexFresh_def split: option.splits)

lemma getIndexCalls_pending:
  "\<forall>t \<in> set ts. \<not> indexFresh t s \<Longrightarrow> inFlight s = Some p \<Longrightarrow>
     getIndexCalls ts s = (replicate (length ts) (Awaiting p), s)"
  by (induction ts) (simp_all add: getIndex_stale_pending)

lemma indexFresh_startBuild: "indexFresh t (startBuild now s) = indexFresh t s"
  by (simp add: indexFresh_def startBuild_def)

text \<open>
  The count of \<^const>\<open>startBuild\<close> is the number of fetches of the build it starts.
\<close>

lemma buildGtfsIndex_fetched:
  "snd (snd (buildGtfsIndex num toISO fetchFn clk d))
     = (if snapshotFresh (clk 0) d then [] else [GTFS_URL])"
  by (simp add: buildGtfsIndex_def downloadZipIfNeeded_def snapshotFresh_def Let_def
      split: option.splits sum.splits prod.splits)

lemma initState_started:
  "getIndex bootTime initState =
     (Awaiting 0, initState\<lparr>inFlight := Some 0, builds := 1, fetches := 1\<rparr>)"
  by (simp add: getIndex_def initState_def startBuild_def snapshotFresh_def readMeta_def
      metaFresh_def)

lemma first_build:
  "buildGtfsIndex demoNum demoISO goodFetch (\<lambda>n. bootTime + int n)
       \<lparr>metaFile = None, zipFile = None, metaWritable = True\<rparr>
     = (Inr demoIndex,
        \<lparr>metaFile = Some (demoMeta (bootTime + 2) ''2024-05-01T00:00:00.000Z'' 1000),
         zipFile = Some (Some demoFiles), metaWritable = True\<rparr>,
        [GTFS_URL])"
  by (simp add: buildGtfsIndex_def downloadZipIfNeeded_def readMeta_def metaFresh_def
      goodFetch_def writeMeta_def demoISO_def demoMeta_def Let_def demoIndex_built bootTime_def)

lemma warmState_eq:
  "warmState =
     \<lparr>cache = Some demoIndex, cacheLoadedAt = bootTime + 5000, inFlight = None,
      files = \<lparr>metaFile = Some (demoMeta (bootTime + 2) ''2024-05-01T00:00:00.000Z'' 1000),
               zipFile = Some (Some demoFiles), metaWritable = True\<rparr>,
      builds = 1, fetches = 1\<rparr>"
  unfolding warmState_def Let_def initState_started
  by (simp add: initState_def first_build buildSettles_def thenCallback_def finallyCallback_def)

lemma refreshingState_eq:
  "refreshingState = warmState\<lparr>inFlight := Some 1, builds := 2, fetches := 2\<rparr>"
  by (simp add: refreshingState_def warmState_eq getIndex_def startBuild_def snapshotFresh_def
      readMeta_def metaFresh_def demoMeta_def nextDay_def bootTime_def ZIP_TTL_MS_def)

lemma brokenIndex_fails:
  "buildIndex demoNum u (Some brokenFiles) = Inl (MissingEntry ''stops.txt'')"
  by (simp add: buildIndex_def readZipEntryToLines_def brokenFiles_def demoFiles_def)

lemma brokenBuild_eq:
  "brokenBuild =
     (Inl (MissingEntry ''stops.txt''),
      \<lparr>metaFile = Some (demoMeta (nextDay + 2) ''2024-05-02T01:00:00.000Z'' 900),
       zipFile = Some (Some brokenFiles), metaWritable = True\<rparr>,
      [GTFS_URL])"
  by (simp add: brokenBuild_def refreshingState_eq warmState_eq buildGtfsIndex_def
      downloadZipIfNeeded_def readMeta_def metaFresh_def brokenFetch_def writeMeta_def
      demoISO_def demoMeta_def Let_def brokenIndex_fails nextDay_def bootTime_def ZIP_TTL_MS_def)

lemma staleState_eq:
  "staleState =
     \<lparr>cache = Some demoIndex, cacheLoadedAt = bootTime + 5000, inFlight = None,
      files = \<lparr>metaFile = Some (demoMeta (nextDay + 2) ''2024-05-02T01:00:00.000Z'' 900),
               zipFile = Some (Some brokenFiles), metaWritable = True\<rparr>,
      builds = 2, fetches = 2\<rparr>"
  by (simp add: staleState_def brokenBuild_eq refreshingState_eq warmState_eq buildSettles_def
      finallyCallback_def)

lemma staleState_stale: "\<not> indexFresh laterCall staleState" "\<not> indexFresh (laterCall + 1) staleState"
  by (simp_all add: indexFresh_def staleState_eq laterCall_def nextDay_def bootTime_def ZIP_TTL_MS_def)

lemma staleState_calls:
  "getIndexCalls [laterCall, laterCall + 1] staleState =
     ([Awaiting 2, Awaiting 2], staleState\<lparr>inFlight := Some 2, builds := 3\<rparr>)"
  by (simp add: staleState_eq getIndex_def startBuild_def snapshotFresh_def readMeta_def
      metaFresh_def demoMeta_def laterCall_def nextDay_def bootTime_def ZIP_TTL_MS_def)

lemma refreshing_stale:
  "\<forall>t \<in> set [nextDay + 2, nextDay + 3]. \<not> indexFresh t refreshingState"
  by (simp add: indexFresh_def refreshingState_eq warmState_eq nextDay_def bootTime_def
      ZIP_TTL_MS_def)

lemma warmState_settled:
  "warmState =
     buildSettles
       (Inr demoIndex,
        \<lparr>metaFile = Some (demoMeta (bootTime + 2) ''2024-05-01T00:00:00.000Z'' 1000),
         zipFile = Some (Some demoFiles), metaWritable = True\<rparr>,
        [GTFS_URL])
       (bootTime + 5000) (snd (getIndex bootTime initState))"
  unfolding warmState_def Let_def initState_started
  by (simp add: initState_def first_build)

text \<open>
  C1, as the code has it. Take calls of \<^verbatim>\<open>getIndex\<close> at times at which the cached index is
  stale, with no build settling in between. If no build is in flight, the first call starts
  one build and every call receives the promise of that build; the build calls \<^verbatim>\<open>fetchFn\<close>
  once when the snapshot on disk is stale or missing and not at all when it is fresh. If a
  build is in flight, every call receives its promise and nothing is started. In both cases
  at most one build and at most one fetch are added.
\<close>

theorem single_flight:
  assumes "\<forall>t \<in> set (t0 # ts). \<not> indexFresh t s"
  shows "(inFlight s = None \<longrightarrow>
            getIndexCalls (t0 # ts) s
              = (replicate (Suc (length ts)) (Awaiting (builds s)), startBuild t0 s) \<and>
            builds (snd (getIndexCalls (t0 # ts) s)) = builds s + 1 \<and>
            fetches (snd (getIndexCalls (t0 # ts) s))
              = fetches s + (if snapshotFresh t0 (files s) then 0 else 1)) \<and>
         (\<forall>p. inFlight s = Some p \<longrightarrow>
            getIndexCalls (t0 # ts) s = (replicate (Suc (length ts)) (Awaiting p), s)) \<and>
         builds (snd (getIndexCalls (t0 # ts) s)) \<le> builds s + 1 \<and>
         fetches (snd (getIndexCalls (t0 # ts) s)) \<le> fetches s + 1"
proof -
  have idle: "getIndexCalls (t0 # ts) s
      = (replicate (Suc (length ts)) (Awaiting (builds s)), startBuild t0 s)"
    if "inFlight s = None"
  proof -
    have first: "getIndex t0 s = (Awaiting (builds s), startBuild t0 s)"
      using assms that by (simp add: getIndex_stale_idle)
    have "\<forall>t \<in> set ts. \<not> indexFresh t (startBuild t0 s)"
      using assms by (simp add: indexFresh_startBuild)
    moreover have "inFlight (startBuild t0 s) = Some (builds s)"
      by (simp add: startBuild_def)
    ultimately have "getIndexCalls ts (startBuild t0 s)
        = (replicate (length ts) (Awaiting (builds s)), startBuild t0 s)"
      by (rule getIndexCalls_pending)
    with first show ?thesis by simp
  qed
  have busy: "getIndexCalls (t0 # ts) s = (replicate (Suc (length ts)) (Awaiting p), s)"
    if "inFlight s = Some p" for p
    using getIndexCalls_pending [OF assms that] by simp
  show ?thesis
  proof (cases "inFlight s")
    case None
    with idle show ?thesis by (simp add: startBuild_def)
  next
    case (Some p)
    with busy show ?thesis by simp
  qed
qed

text \<open>
  C1, at the run: two calls twenty-five hours after the first build start one build with
  one fetch, and both receive the promise of that build; two more calls while it is in
  flight receive the same promise and start nothing.
\<close>

theorem single_flight_witness:
  "\<not> indexFresh nextDay warmState \<and> \<not> indexFresh (nextDay + 1) warmState \<and>
   inFlight warmState = None \<and>
   getIndexCalls [nextDay, nextDay + 1] warmState = ([Awaiting 1, Awaiting 1], refreshingState) \<and>
   builds refreshingState = builds warmState + 1 \<and>
   fetches refreshingState = fetches warmState + 1 \<and>
   \<not> indexFresh (nextDay + 2) refreshingState \<and> \<not> indexFresh (nextDay + 3) refreshingState \<and>
   inFlight refreshingState = Some 1 \<and>
   getIndexCalls [nextDay + 2, nextDay + 3] refreshingState
     = ([Awaiting 1, Awaiting 1], refreshingState)"
proof -
  have stale: "\<forall>t \<in> set [nextDay, nextDay + 1]. \<not> indexFresh t warmState"
    by (simp add: indexFresh_def warmState_eq nextDay_def bootTime_def ZIP_TTL_MS_def)
  have start: "startBuild nextDay warmState = refreshingState"
    by (simp add: refreshingState_eq warmState_eq startBuild_def snapshotFresh_def readMeta_def
        metaFresh_def demoMeta_def nextDay_def bootTime_def ZIP_TTL_MS_def)
  have idle: "inFlight warmState = None" "builds warmState = 1" "fetches warmState = 1"
    by (simp_all add: warmState_eq)
  from single_flight [OF stale] idle(1)
  have "getIndexCalls [nextDay, nextDay + 1] warmState
          = (replicate (Suc (length [nextDay + 1])) (Awaiting (builds warmState)),
             startBuild nextDay warmState)"
    by blast
  then have calls: "getIndexCalls [nextDay, nextDay + 1] warmState
          = ([Awaiting 1, Awaiting 1], refreshingState)"
    by (simp add: start idle del: getIndexCalls.simps)
  have counts: "builds refreshingState = 2" "fetches refreshingState = 2"
    by (simp_all add: refreshingState_eq)
  have busy: "inFlight refreshingState = Some 1" by (simp add: refreshingState_eq)
  from single_flight [OF refreshing_stale] busy
  have "getIndexCalls [nextDay + 2, nextDay + 3] refreshingState
          = (replicate (Suc (length [nextDay + 3])) (Awaiting 1), refreshingState)"
    by blast
  then have calls2: "getIndexCalls [nextDay + 2, nextDay + 3] refreshingState
          = ([Awaiting 1, Awaiting 1], refreshingState)"
    by (simp del: getIndexCalls.simps)
  from stale idle calls counts refreshing_stale busy calls2 show ?thesis
    by (simp del: getIndexCalls.simps)
qed

text \<open>
  C1 as stated fails where it says exactly one fetch. After the refresh that stored its
  download and then failed, the index is stale and the snapshot is fresh: the two calls
  start one build, and \<^verbatim>\<open>fetchFn\<close> is not called.
\<close>

theorem stale_index_fresh_snapshot_no_fetch:
  "\<not> indexFresh laterCall staleState \<and> \<not> indexFresh (laterCall + 1) staleState \<and>
   inFlight staleState = None \<and>
   builds (snd (getIndexCalls [laterCall, laterCall + 1] staleState)) = builds staleState + 1 \<and>
   fetches (snd (getIndexCalls [laterCall, laterCall + 1] staleState)) = fetches staleState"
  using staleState_stale unfolding staleState_calls by (simp add: staleState_eq)

text \<open>
  C6. When the build in flight settles, \<^verbatim>\<open>inFlight\<close> is cleared, whether the build was
  fulfilled or rejected. A fulfilled build stores its index and the time in the cache; a
  rejected one leaves the cache as it was. A call of \<^verbatim>\<open>getIndex\<close> after that, at a time at
  which the cache is not fresh, starts a new build.
\<close>

theorem settle_clears_marker:
  "inFlight (buildSettles r now s) = None \<and>
   builds (buildSettles r now s) = builds s \<and>
   (\<forall>idx d f. r = (Inr idx, d, f) \<longrightarrow>
      cache (buildSettles r now s) = Some idx \<and> cacheLoadedAt (buildSettles r now s) = now) \<and>
   (\<forall>e d f. r = (Inl e, d, f) \<longrightarrow>
      cache (buildSettles r now s) = cache s \<and>
      cacheLoadedAt (buildSettles r now s) = cacheLoadedAt s) \<and>
   (\<forall>t. \<not> indexFresh t (buildSettles r now s) \<longrightarrow>
      getIndex t (buildSettles r now s)
        = (Awaiting (builds s), startBuild t (buildSettles r now s)))"
proof -
  have m: "inFlight (buildSettles r now s) = None" and b: "builds (buildSettles r now s) = builds s"
    by (auto simp: buildSettles_def finallyCallback_def thenCallback_def
        split: prod.splits sum.splits)
  have "getIndex t (buildSettles r now s)
          = (Awaiting (builds s), startBuild t (buildSettles r now s))"
    if "\<not> indexFresh t (buildSettles r now s)" for t
    using getIndex_stale_idle [OF that m] b by simp
  with m b show ?thesis
    by (auto simp: buildSettles_def finallyCallback_def thenCallback_def)
qed

text \<open>
  C6, at the run: the refresh fails, the marker is cleared, the old index stays, and the next
  call starts build number 2. The first build succeeded: the marker was cleared and its
  index cached with the time.
\<close>

theorem settle_clears_marker_witness:
  "brokenBuild = (Inl (MissingEntry ''stops.txt''), files staleState, [GTFS_URL]) \<and>
   inFlight refreshingState = Some 1 \<and>
   inFlight staleState = None \<and>
   cache staleState = cache refreshingState \<and>
   \<not> indexFresh laterCall staleState \<and>
   getIndex laterCall staleState = (Awaiting 2, startBuild laterCall staleState) \<and>
   inFlight (snd (getIndex bootTime initState)) = Some 0 \<and>
   inFlight warmState = None \<and>
   cache warmState = Some demoIndex \<and> cacheLoadedAt warmState = bootTime + 5000"
proof -
  note th = settle_clears_marker [of brokenBuild "nextDay + 5000" refreshingState,
      folded staleState_def]
  have r: "brokenBuild = (Inl (MissingEntry ''stops.txt''), files staleState, [GTFS_URL])"
    by (simp add: brokenBuild_eq staleState_eq)
  have p: "inFlight refreshingState = Some 1" "builds refreshingState = 2"
    by (simp_all add: refreshingState_eq)
  from th have a: "inFlight staleState = None" by blast
  from th r have b: "cache staleState = cache refreshingState" by blast
  from th staleState_stale(1)
  have "getIndex laterCall staleState
      = (Awaiting (builds refreshingState), startBuild laterCall staleState)"
    by blast
  with p(2) have c: "getIndex laterCall staleState = (Awaiting 2, startBuild laterCall staleState)"
    by simp
  note tw = settle_clears_marker [of
      "(Inr demoIndex,
        \<lparr>metaFile = Some (demoMeta (bootTime + 2) ''2024-05-01T00:00:00.000Z'' 1000),
         zipFile = Some (Some demoFiles), metaWritable = True\<rparr>,
        [GTFS_URL])"
      "bootTime + 5000" "snd (getIndex bootTime initState)", folded warmState_settled]
  from tw have w: "inFlight warmState = None" "cache warmState = Some demoIndex"
    "cacheLoadedAt warmState = bootTime + 5000" by blast+
  have i: "inFlight (snd (getIndex bootTime initState)) = Some 0"
    by (simp add: initState_started)
  from r p(1) a b staleState_stale(1) c i w show ?thesis by blast
qed

section \<open>The snapshot step\<close>

text \<open>
  C7. With metadata on disk and the clock past the first 24 hours of 1970, as the clock of
  a running process is: if less than 24 hours have passed since \<^verbatim>\<open>downloadedAt\<close> and the
  archive file exists, nothing is fetched, the disk is unchanged, and the result is the
  cached archive with the \<^verbatim>\<open>updatedAt\<close> of the metadata (\<^verbatim>\<open>null\<close> for an empty one). If 24
  hours or more have passed, \<^verbatim>\<open>fetchFn\<close> is called exactly once. The test of the code reads
  a \<^verbatim>\<open>downloadedAt\<close> of zero as no download; with any clock the snapshot is reused when
  \<^verbatim>\<open>downloadedAt\<close> is not zero.
\<close>

theorem snapshot_reuse_or_fetch:
  assumes "metaFile d = Some m"
  shows "(ZIP_TTL_MS \<le> clk 0 \<and> clk 0 - downloadedAt m < ZIP_TTL_MS \<and> zipFile d \<noteq> None \<longrightarrow>
            downloadZipIfNeeded toISO fetchFn clk d
              = (Inr \<lparr>zipPath = ZIP_PATH,
                      snap_updatedAt = (if updatedAt m = [] then None else Some (updatedAt m))\<rparr>,
                 d, [])) \<and>
         (downloadedAt m \<noteq> 0 \<and> clk 0 - downloadedAt m < ZIP_TTL_MS \<and> zipFile d \<noteq> None \<longrightarrow>
            downloadZipIfNeeded toISO fetchFn clk d
              = (Inr \<lparr>zipPath = ZIP_PATH,
                      snap_updatedAt = (if updatedAt m = [] then None else Some (updatedAt m))\<rparr>,
                 d, [])) \<and>
         (ZIP_TTL_MS \<le> clk 0 - downloadedAt m \<longrightarrow>
            snd (snd (downloadZipIfNeeded toISO fetchFn clk d)) = [GTFS_URL])"
proof -
  have reuse: "downloadZipIfNeeded toISO fetchFn clk d
      = (Inr \<lparr>zipPath = ZIP_PATH,
              snap_updatedAt = (if updatedAt m = [] then None else Some (updatedAt m))\<rparr>,
         d, [])"
    if "downloadedAt m \<noteq> 0" "clk 0 - downloadedAt m < ZIP_TTL_MS" "zipFile d \<noteq> None"
    using assms that
    by (auto simp: downloadZipIfNeeded_def readMeta_def metaFresh_def Let_def
        split: option.splits)
  have fetch: "snd (snd (downloadZipIfNeeded toISO fetchFn clk d)) = [GTFS_URL]"
    if "ZIP_TTL_MS \<le> clk 0 - downloadedAt m"
    using assms that
    by (auto simp: downloadZipIfNeeded_def readMeta_def metaFresh_def Let_def
        split: option.splits)
  have "downloadedAt m \<noteq> 0" if "ZIP_TTL_MS \<le> clk 0" "clk 0 - downloadedAt m < ZIP_TTL_MS"
    using that by auto
  with reuse fetch show ?thesis by blast
qed

text \<open>
  C7, at the disk the first build of the run leaves: one millisecond before the 24 hours
  are over the snapshot is reused, one millisecond after it is fetched again.
\<close>

theorem snapshot_reuse_or_fetch_witness:
  "metaFile (files warmState) = Some (demoMeta (bootTime + 2) ''2024-05-01T00:00:00.000Z'' 1000) \<and>
   ZIP_TTL_MS \<le> clockBeforeExpiry 0 \<and>
   clockBeforeExpiry 0 - (bootTime + 2) < ZIP_TTL_MS \<and>
   zipFile (files warmState) \<noteq> None \<and>
   downloadZipIfNeeded demoISO goodFetch clockBeforeExpiry (files warmState)
     = (Inr \<lparr>zipPath = ZIP_PATH, snap_updatedAt = Some ''2024-05-01T00:00:00.000Z''\<rparr>,
        files warmState, []) \<and>
   ZIP_TTL_MS \<le> clockAfterExpiry 0 - (bootTime + 2) \<and>
   snd (snd (downloadZipIfNeeded demoISO goodFetch clockAfterExpiry (files warmState)))
     = [GTFS_URL]"
proof -
  have m: "metaFile (files warmState) = Some (demoMeta (bootTime + 2) ''2024-05-01T00:00:00.000Z'' 1000)"
    by (simp add: warmState_eq)
  have z: "zipFile (files warmState) \<noteq> None" by (simp add: warmState_eq)
  have c: "ZIP_TTL_MS \<le> clockBeforeExpiry 0" "clockBeforeExpiry 0 - (bootTime + 2) < ZIP_TTL_MS"
    "ZIP_TTL_MS \<le> clockAfterExpiry 0 - (bootTime + 2)"
    by (simp_all add: clockBeforeExpiry_def clockAfterExpiry_def bootTime_def ZIP_TTL_MS_def)
  from snapshot_reuse_or_fetch [OF m, of clockBeforeExpiry demoISO goodFetch]
    snapshot_reuse_or_fetch [OF m, of clockAfterExpiry demoISO goodFetch] m z c
  show ?thesis
    by (simp add: demoMeta_def)
qed

end
